theory Spec2Isabelle
  imports Main
begin

section \<open>Data model: Variables, Apply nodes and FunctionGraphs on a heap\<close>

text \<open>
  \<open>aesara/graph/opt_utils.py\<close> works on objects of \<open>aesara.graph.basic\<close> and
  \<open>aesara.graph.fg\<close>: a \<open>Variable\<close> has an \<open>owner\<close> (an \<open>Apply\<close> or \<open>None\<close>), an
  \<open>Apply\<close> has an operation and the ordered lists \<open>inputs\<close> and \<open>outputs\<close>, and a
  \<open>FunctionGraph\<close> has \<open>inputs\<close>, \<open>outputs\<close> and the dict \<open>clients\<close>.  Python compares
  these objects by reference, so each of them is a reference into an explicit heap, and
  two references are the same object exactly when they are equal.
\<close>

type_synonym variable_ref = nat
type_synonym apply_ref = nat
type_synonym fgraph_ref = nat

text \<open>The first component of a client entry: a consuming \<open>Apply\<close>, or the string
  \<open>"output"\<close> that marks a designated graph output.\<close>

datatype consumer = ClientNode apply_ref | ClientOutput

type_synonym client = "consumer \<times> nat"

record fgraph =
  fg_inputs :: "variable_ref list"
  fg_outputs :: "variable_ref list"
  fg_clients :: "variable_ref \<rightharpoonup> client list"
  fg_apply_nodes :: "apply_ref list"
  fg_variables :: "variable_ref list"

record heap =
  var_owner :: "variable_ref \<Rightarrow> apply_ref option"
  var_data :: "variable_ref \<Rightarrow> nat option"
  app_op :: "apply_ref \<Rightarrow> nat"
  app_inputs :: "apply_ref \<Rightarrow> variable_ref list"
  app_outputs :: "apply_ref \<Rightarrow> variable_ref list"
  fgraphs :: "fgraph_ref \<Rightarrow> fgraph"
  next_var :: nat
  next_app :: nat
  next_fg :: nat

text \<open>
  Modelled from the spec: the field \<open>var_data\<close>.  \<open>opt_utils.py\<close> never reads the data of
  a Variable.  The literal \<open>1\<close> of the specification's graphs \<open>x + 1\<close> and \<open>y + 1\<close> is
  a constant: a Variable without owner that carries data, and every occurrence of the
  literal is a constant of its own.  \<open>var_data\<close> is \<open>None\<close> on a Variable that is not a
  constant.
\<close>

text \<open>\<open>next_var\<close>, \<open>next_app\<close> and \<open>next_fg\<close> are the allocation frontiers: the objects
  below them are the ones that exist.\<close>

text \<open>Every \<open>raise\<close>, failed \<open>assert\<close> and failed lookup is a value.\<close>

datatype error =
    AssertionError
  | KeyError
  | IndexError
  | ValueError
  | MalformedSubstitution
  | RecursionError
  | UnregisteredPassName
  | OtherError nat

section \<open>Bounded-depth client traversal\<close>

text \<open>
  \<open>get_clients_at_depth\<close> is a generator.  Its run is the list of the values it yields
  and, when the run ends in an exception, that exception.  \<open>gen_chain\<close> is
  \<open>yield from\<close> over a sequence of runs: it stops at the first one that raises.
\<close>

type_synonym 'a gen = "'a list \<times> error option"

fun gen_chain :: "'a gen list \<Rightarrow> 'a gen" where
  "gen_chain [] = ([], None)"
| "gen_chain ((ys, Some e) # rest) = (ys, Some e)"
| "gen_chain ((ys, None) # rest) = (ys @ fst (gen_chain rest), snd (gen_chain rest))"

text \<open>
  The loop variable of the source shadows the parameter \<open>node\<close>: it ranges over the
  output Variables of the node, and \<open>node.owner\<close> in the last line is the owner of that
  output Variable.  \<open>fgraph.clients[out]\<close> raises \<open>KeyError\<close> on a Variable the graph
  does not track.
\<close>

function get_clients_at_depth ::
  "fgraph \<Rightarrow> heap \<Rightarrow> apply_ref \<Rightarrow> int \<Rightarrow> apply_ref option gen" where
  "get_clients_at_depth fgraph h node depth =
     gen_chain (map (\<lambda>out.
        if depth > 0 then
          (case fg_clients fgraph out of
             None \<Rightarrow> ([], Some KeyError)
           | Some cs \<Rightarrow>
               gen_chain (map (\<lambda>c.
                 case fst c of
                   ClientOutput \<Rightarrow> ([], None)
                 | ClientNode out_node \<Rightarrow> get_clients_at_depth fgraph h out_node (depth - 1)) cs))
        else ([var_owner h out], None)) (app_outputs h node))"
  by pat_completeness auto
termination
  by (relation "measure (\<lambda>(fg, h, n, d). nat d)") auto

declare get_clients_at_depth.simps [simp del]

section \<open>Actions on the heap\<close>

text \<open>
  A call that may mutate objects and may raise is a function from the heap to a result
  (\<open>Inl\<close> the exception, \<open>Inr\<close> the returned value) and the heap it leaves behind.
\<close>

type_synonym 'a action = "heap \<Rightarrow> (error + 'a) \<times> heap"

definition seq :: "'a action \<Rightarrow> ('a \<Rightarrow> 'b action) \<Rightarrow> 'b action" where
  "seq m f h = (case m h of (Inl e, h') \<Rightarrow> (Inl e, h') | (Inr x, h') \<Rightarrow> f x h')"

definition reading :: "(heap \<Rightarrow> error + 'a) \<Rightarrow> 'a action" where
  "reading f h = (f h, h)"

text \<open>A \<open>dict\<close> from Variables to Variables, in insertion order; keys are compared by
  reference.\<close>

type_synonym givens = "(variable_ref \<times> variable_ref) list"

definition givens_get :: "givens \<Rightarrow> variable_ref \<Rightarrow> variable_ref" where
  "givens_get g v = (case map_of g v of None \<Rightarrow> v | Some w \<Rightarrow> w)"

fun dict_set :: "givens \<Rightarrow> variable_ref \<Rightarrow> variable_ref \<Rightarrow> givens" where
  "dict_set [] k v = [(k, v)]"
| "dict_set ((k', v') # d) k v = (if k' = k then (k, v) # d else (k', v') # dict_set d k v)"

definition dict :: "(variable_ref \<times> variable_ref) list \<Rightarrow> givens" where
  "dict pairs = foldl (\<lambda>d kv. dict_set d (fst kv) (snd kv)) [] pairs"

text \<open>The \<open>givens\<close> argument of \<open>is_same_graph\<close>: \<open>None\<close>, a \<open>dict\<close>, or any iterable of
  pairs, which \<open>dict(givens)\<close> turns into a dict.\<close>

datatype givens_arg =
    GivensNone
  | GivensDict givens
  | GivensPairs "(variable_ref \<times> variable_ref) list"

section \<open>Collaborators of \<open>opt_utils.py\<close>\<close>

text \<open>
  The functions and classes \<open>opt_utils.py\<close> imports are parameters of its model:
  \<open>copy.deepcopy\<close> (of the list \<open>[var1, var2, givens]\<close>), \<open>graph_inputs\<close>,
  \<open>vars_between\<close> and \<open>equal_computations\<close> of \<open>aesara.graph.basic\<close>, the constructor
  and the method \<open>replace\<close> of \<open>FunctionGraph\<close>, \<open>MergeOptimizer().optimize\<close>, and
  \<open>optdb.query(OptimizationQuery(include=include, **kwargs))\<close>.  The three functions of
  \<open>aesara.graph.basic\<close> only read the graph.
\<close>

text \<open>An optimizer object has a truth value (\<open>if custom_opt:\<close>) and the method
  \<open>optimize\<close>; keyword arguments are passed on as they are.\<close>

record optimizer =
  truthy :: bool
  optimize :: "fgraph_ref \<Rightarrow> unit action"

type_synonym kwargs = "(string \<times> string) list"

record collaborators =
  deepcopy :: "variable_ref \<times> variable_ref \<times> givens
                 \<Rightarrow> (variable_ref \<times> variable_ref \<times> givens) action"
  graph_inputs :: "heap \<Rightarrow> variable_ref list \<Rightarrow> error + variable_ref list"
  vars_between :: "heap \<Rightarrow> variable_ref list \<Rightarrow> variable_ref list \<Rightarrow> error + variable_ref list"
  equal_computations :: "heap \<Rightarrow> variable_ref list \<Rightarrow> variable_ref list
                 \<Rightarrow> variable_ref list option \<Rightarrow> variable_ref list option \<Rightarrow> error + bool"
  FunctionGraph :: "variable_ref list option \<Rightarrow> variable_ref list \<Rightarrow> bool \<Rightarrow> fgraph_ref action"
  replace :: "fgraph_ref \<Rightarrow> variable_ref \<Rightarrow> variable_ref \<Rightarrow> unit action"
  MergeOptimizer_optimize :: "fgraph_ref \<Rightarrow> unit action"
  optdb_query :: "string list \<Rightarrow> kwargs \<Rightarrow> optimizer action"

section \<open>\<open>optimize_graph\<close>\<close>

text \<open>
  The first argument is a \<open>Variable\<close> or a \<open>FunctionGraph\<close>, and so is the result.
  \<open>fgraph.outputs[0]\<close> raises \<open>IndexError\<close> on a graph without outputs.
\<close>

datatype graph_arg = ArgVariable variable_ref | ArgFunctionGraph fgraph_ref

definition optimize_graph ::
  "collaborators \<Rightarrow> graph_arg \<Rightarrow> string list \<Rightarrow> optimizer option \<Rightarrow> bool \<Rightarrow> kwargs
   \<Rightarrow> graph_arg action" where
  "optimize_graph C fgraph include custom_opt clone kwargs =
     seq (case fgraph of
            ArgFunctionGraph fg \<Rightarrow> (\<lambda>h. (Inr (fg, False), h))
          | ArgVariable v \<Rightarrow>
              seq (FunctionGraph C None [v] clone) (\<lambda>fg h. (Inr (fg, True), h)))
       (\<lambda>(fg, return_only_out).
          seq (optdb_query C include kwargs) (\<lambda>canonicalize_opt.
          seq (optimize canonicalize_opt fg) (\<lambda>_.
          seq (case custom_opt of
                 None \<Rightarrow> (\<lambda>h. (Inr (), h))
               | Some opt \<Rightarrow> if truthy opt then optimize opt fg else (\<lambda>h. (Inr (), h)))
            (\<lambda>_ h.
               if return_only_out then
                 (case fg_outputs (fgraphs h fg) of
                    [] \<Rightarrow> (Inl IndexError, h)
                  | out # _ \<Rightarrow> (Inr (ArgVariable out), h))
               else (Inr (ArgFunctionGraph fg), h)))))"

section \<open>\<open>is_same_graph_with_merge\<close>\<close>

text \<open>Lines 79-80: the substitutions, in the order of the dict; the first \<open>replace\<close>
  that raises ends the loop.\<close>

fun replace_all :: "collaborators \<Rightarrow> fgraph_ref \<Rightarrow> givens \<Rightarrow> unit action" where
  "replace_all C fg [] = (\<lambda>h. (Inr (), h))"
| "replace_all C fg ((to_replace, replace_by) # rest) =
     seq (replace C fg to_replace replace_by) (\<lambda>_. replace_all C fg rest)"

text \<open>Lines 67-82: copy, build the \<open>FunctionGraph\<close> on the copies, substitute, merge.
  The result is the graph and the copied \<open>givens\<close>.\<close>

definition merged_graph ::
  "collaborators \<Rightarrow> variable_ref \<Rightarrow> variable_ref \<Rightarrow> givens option
   \<Rightarrow> (fgraph_ref \<times> givens) action" where
  "merged_graph C var1 var2 givens =
     seq (deepcopy C (var1, var2, case givens of None \<Rightarrow> [] | Some g \<Rightarrow> g))
       (\<lambda>(copy1, copy2, givens').
          seq (reading (\<lambda>h. graph_inputs C h [copy1, copy2])) (\<lambda>inputs.
          seq (FunctionGraph C (Some inputs) [copy1, copy2] False) (\<lambda>fg.
          seq (replace_all C fg givens') (\<lambda>_.
          seq (MergeOptimizer_optimize C fg) (\<lambda>_ h. (Inr (fg, givens'), h))))))"

text \<open>Lines 89-96.  \<open>o1, o2 = [...]\<close> raises \<open>ValueError\<close> unless the graph has exactly
  two outputs.  \<open>Variable\<close> does not override \<open>==\<close>, so \<open>==\<close> on Variables is \<open>is\<close>.\<close>

definition compare_outputs :: "heap \<Rightarrow> fgraph_ref \<Rightarrow> givens \<Rightarrow> error + bool" where
  "compare_outputs h fg givens =
     (case map (givens_get givens) (fg_outputs (fgraphs h fg)) of
        [r1, r2] \<Rightarrow>
          (let o1 = var_owner h r1; o2 = var_owner h r2
           in if o1 = None \<and> o2 = None then Inr (r1 = r2) else Inr (o1 = o2))
      | _ \<Rightarrow> Inl ValueError)"

definition is_same_graph_with_merge ::
  "collaborators \<Rightarrow> variable_ref \<Rightarrow> variable_ref \<Rightarrow> givens option \<Rightarrow> bool action" where
  "is_same_graph_with_merge C var1 var2 givens =
     seq (merged_graph C var1 var2 givens)
       (\<lambda>(fg, givens'). reading (\<lambda>h. compare_outputs h fg givens'))"

section \<open>\<open>is_same_graph\<close>\<close>

text \<open>Lines 170-196: the loop over \<open>givens.items()\<close> that builds \<open>in_xs\<close> and \<open>in_ys\<close>.
  \<open>None\<close> is \<open>ok = False\<close>: the loop leaves at the first pair neither branch accepts.\<close>

fun separate ::
  "variable_ref list \<Rightarrow> variable_ref list \<Rightarrow> givens \<Rightarrow> variable_ref list \<Rightarrow> variable_ref list
   \<Rightarrow> (variable_ref list \<times> variable_ref list) option" where
  "separate all1 all2 [] in_xs in_ys = Some (in_xs, in_ys)"
| "separate all1 all2 ((to_replace, replace_by) # rest) in_xs in_ys =
     (if to_replace \<in> set all1 \<and> to_replace \<notin> set all2
         \<and> replace_by \<in> set all2 \<and> replace_by \<notin> set all1
      then separate all1 all2 rest (in_xs @ [to_replace]) (in_ys @ [replace_by])
      else if to_replace \<in> set all2 \<and> to_replace \<notin> set all1
         \<and> replace_by \<in> set all1 \<and> replace_by \<notin> set all2
      then separate all1 all2 rest (in_xs @ [replace_by]) (in_ys @ [to_replace])
      else None)"

text \<open>Lines 148-202.  The result \<open>None\<close> is \<open>use_equal_computations = False\<close>; otherwise
  it is the pair \<open>(in_xs, in_ys)\<close>, both \<open>None\<close> when \<open>givens\<close> is empty.  The generators
  \<open>graph_inputs\<close> run when \<open>vars_between\<close> consumes them.\<close>

definition in_lists ::
  "collaborators \<Rightarrow> heap \<Rightarrow> variable_ref \<Rightarrow> variable_ref \<Rightarrow> givens
   \<Rightarrow> error + (variable_ref list option \<times> variable_ref list option) option" where
  "in_lists C h var1 var2 givens =
     (if givens \<noteq> [] then
        (case graph_inputs C h [var1] of Inl e \<Rightarrow> Inl e | Inr inputs1 \<Rightarrow>
         case vars_between C h inputs1 [var1] of Inl e \<Rightarrow> Inl e | Inr all1 \<Rightarrow>
         case graph_inputs C h [var2] of Inl e \<Rightarrow> Inl e | Inr inputs2 \<Rightarrow>
         case vars_between C h inputs2 [var2] of Inl e \<Rightarrow> Inl e | Inr all2 \<Rightarrow>
         (case separate all1 all2 givens [] [] of
            None \<Rightarrow> Inr None
          | Some (in_xs, in_ys) \<Rightarrow> Inr (Some (Some in_xs, Some in_ys))))
      else Inr (Some (None, None)))"

definition givens_dict :: "givens_arg \<Rightarrow> givens" where
  "givens_dict givens =
     (case givens of GivensNone \<Rightarrow> [] | GivensDict d \<Rightarrow> d | GivensPairs ps \<Rightarrow> dict ps)"

definition is_same_graph ::
  "collaborators \<Rightarrow> variable_ref \<Rightarrow> variable_ref \<Rightarrow> givens_arg \<Rightarrow> bool action" where
  "is_same_graph C var1 var2 givens =
     seq (is_same_graph_with_merge C var1 var2 (Some (givens_dict givens))) (\<lambda>rval1.
     seq (reading (\<lambda>h. in_lists C h var1 var2 (givens_dict givens))) (\<lambda>lists.
       case lists of
         None \<Rightarrow> (\<lambda>h. (Inr rval1, h))
       | Some (in_xs, in_ys) \<Rightarrow>
           seq (reading (\<lambda>h. equal_computations C h [var1] [var2] in_xs in_ys)) (\<lambda>rval2 h.
             if rval2 = rval1 then (Inr rval1, h) else (Inl AssertionError, h))))"

section \<open>The collaborators, modelled from the specification\<close>

subsection \<open>Deep copy\<close>

text \<open>
  Modelled from the spec: \<open>copy.deepcopy\<close> is not in \<open>opt_utils.py\<close>.  The specification
  asks for one combined copy that is entirely isolated (nothing in the copy is
  reference-equal to anything in the source) and that preserves the sharing inside the
  bundle, through one map from old to new references.  Here the map is a shift by the
  allocation frontier: the copy of Variable \<open>v\<close> is Variable \<open>v + next_var h\<close>, the copy
  of node \<open>a\<close> is node \<open>a + next_app h\<close>, and a copy refers to the copies of what its
  original refers to.
\<close>

definition copy_heap :: "heap \<Rightarrow> heap" where
  "copy_heap h =
     (let V = next_var h; A = next_app h in
      h\<lparr>var_owner := (\<lambda>v. if v < V then var_owner h v
                           else map_option (\<lambda>a. a + A) (var_owner h (v - V))),
        var_data := (\<lambda>v. if v < V then var_data h v else var_data h (v - V)),
        app_op := (\<lambda>a. if a < A then app_op h a else app_op h (a - A)),
        app_inputs := (\<lambda>a. if a < A then app_inputs h a
                            else map (\<lambda>v. v + V) (app_inputs h (a - A))),
        app_outputs := (\<lambda>a. if a < A then app_outputs h a
                             else map (\<lambda>v. v + V) (app_outputs h (a - A))),
        next_var := V + V,
        next_app := A + A\<rparr>)"

definition deepcopy_model ::
  "variable_ref \<times> variable_ref \<times> givens \<Rightarrow> (variable_ref \<times> variable_ref \<times> givens) action" where
  "deepcopy_model arg h =
     (case arg of (var1, var2, givens) \<Rightarrow>
        (Inr (var1 + next_var h, var2 + next_var h,
              map (\<lambda>kv. (fst kv + next_var h, snd kv + next_var h)) givens),
         copy_heap h))"

subsection \<open>Backward reachability\<close>

text \<open>
  Modelled from the spec: \<open>graph_inputs\<close> and \<open>vars_between\<close> are not in
  \<open>opt_utils.py\<close>.  The specification has the Values reachable backward from the
  outputs through owner edges, and the leaves among them.  One round adds the inputs of
  the owners of the Values found so far, without walking past a Value of \<open>stop\<close>; a round
  that changes the list adds a Value, so \<open>next_var h\<close> rounds reach every Value of a
  heap whose Values are all allocated.
\<close>

definition producers :: "heap \<Rightarrow> variable_ref list \<Rightarrow> variable_ref list \<Rightarrow> variable_ref list" where
  "producers h stop vs =
     concat (map (\<lambda>v. if v \<in> set stop then []
                       else case var_owner h v of None \<Rightarrow> [] | Some a \<Rightarrow> app_inputs h a) vs)"

fun walk_back :: "nat \<Rightarrow> heap \<Rightarrow> variable_ref list \<Rightarrow> variable_ref list \<Rightarrow> variable_ref list" where
  "walk_back 0 h stop vs = vs"
| "walk_back (Suc n) h stop vs = walk_back n h stop (remdups (vs @ producers h stop vs))"

definition ancestors :: "heap \<Rightarrow> variable_ref list \<Rightarrow> variable_ref list \<Rightarrow> variable_ref list" where
  "ancestors h stop vs = walk_back (next_var h) h stop (remdups vs)"

definition graph_inputs_model :: "heap \<Rightarrow> variable_ref list \<Rightarrow> error + variable_ref list" where
  "graph_inputs_model h vs = Inr (filter (\<lambda>v. var_owner h v = None) (ancestors h [] vs))"

definition vars_between_model ::
  "heap \<Rightarrow> variable_ref list \<Rightarrow> variable_ref list \<Rightarrow> error + variable_ref list" where
  "vars_between_model h ins outs = Inr (ancestors h ins outs)"

subsection \<open>The graph container\<close>

text \<open>
  Modelled from the spec: the class \<open>FunctionGraph\<close> is not in \<open>opt_utils.py\<close>.  The
  specification has a container over designated inputs and outputs with a derived
  client index: for every tracked Value the (consuming node, input position) pairs that
  reference it, and the \<open>"output"\<close> marker with the position for a designated output.
\<close>

definition graph_nodes :: "heap \<Rightarrow> variable_ref list \<Rightarrow> apply_ref list" where
  "graph_nodes h vs =
     remdups (concat (map (\<lambda>v. case var_owner h v of None \<Rightarrow> [] | Some a \<Rightarrow> [a]) vs))"

definition client_index ::
  "heap \<Rightarrow> apply_ref list \<Rightarrow> variable_ref list \<Rightarrow> variable_ref \<Rightarrow> client list" where
  "client_index h nodes outputs v =
     concat (map (\<lambda>a. map (\<lambda>i. (ClientNode a, i))
                          (filter (\<lambda>i. app_inputs h a ! i = v) [0..<length (app_inputs h a)]))
                 nodes)
     @ map (\<lambda>i. (ClientOutput, i)) (filter (\<lambda>i. outputs ! i = v) [0..<length outputs])"

definition build_fgraph ::
  "heap \<Rightarrow> variable_ref list \<Rightarrow> variable_ref list \<Rightarrow> apply_ref list \<Rightarrow> fgraph" where
  "build_fgraph h inputs outputs nodes =
     (let variables =
            remdups (inputs @ outputs
                     @ concat (map (\<lambda>a. app_inputs h a @ app_outputs h a) nodes))
      in \<lparr>fg_inputs = inputs, fg_outputs = outputs,
          fg_clients = (\<lambda>v. if v \<in> set variables
                             then Some (client_index h nodes outputs v) else None),
          fg_apply_nodes = nodes, fg_variables = variables\<rparr>)"

text \<open>The constructor.  With \<open>clone\<close> the graph is built on a copy of the outputs (and of
  the inputs); without inputs, the leaves below the outputs are the inputs.\<close>

definition FunctionGraph_model ::
  "variable_ref list option \<Rightarrow> variable_ref list \<Rightarrow> bool \<Rightarrow> fgraph_ref action" where
  "FunctionGraph_model inputs outputs clone h =
     (let h1 = (if clone then copy_heap h else h);
          shift = (if clone then (\<lambda>v. v + next_var h) else (\<lambda>v. v));
          outs = map shift outputs;
          ins = (case inputs of
                   None \<Rightarrow> filter (\<lambda>v. var_owner h1 v = None) (ancestors h1 [] outs)
                 | Some i \<Rightarrow> map shift i);
          fg = build_fgraph h1 ins outs (graph_nodes h1 (ancestors h1 ins outs));
          r = next_fg h1
      in (Inr r, h1\<lparr>fgraphs := (fgraphs h1)(r := fg), next_fg := Suc r\<rparr>))"

text \<open>
  Modelled from the spec: \<open>FunctionGraph.replace\<close>.  It rewires every consumer edge that
  points at the old Value (an input of a node of the graph, or an output slot of the
  graph) to the new Value and updates the client index; it fails if the old Value is
  not tracked by the graph; it removes no node.  \<open>rewire\<close> applies a substitution to
  all edges at once and rebuilds the index over the given nodes.
\<close>

definition rewire ::
  "(variable_ref \<Rightarrow> variable_ref) \<Rightarrow> fgraph_ref \<Rightarrow> apply_ref list \<Rightarrow> heap \<Rightarrow> heap" where
  "rewire \<sigma> r nodes h =
     (let fg = fgraphs h r;
          h1 = h\<lparr>app_inputs := (\<lambda>a. if a \<in> set (fg_apply_nodes fg)
                                     then map \<sigma> (app_inputs h a) else app_inputs h a)\<rparr>
      in h1\<lparr>fgraphs := (fgraphs h)(r := build_fgraph h1 (fg_inputs fg)
                                           (map \<sigma> (fg_outputs fg)) nodes)\<rparr>)"

definition replace_model :: "fgraph_ref \<Rightarrow> variable_ref \<Rightarrow> variable_ref \<Rightarrow> unit action" where
  "replace_model r old new h =
     (let fg = fgraphs h r in
      if old \<notin> set (fg_variables fg) then (Inl MalformedSubstitution, h)
      else (Inr (),
            rewire (\<lambda>u. if u = old then new else u) r
              (remdups (fg_apply_nodes fg
                        @ graph_nodes h (ancestors h (fg_inputs fg) [new]))) h))"

subsection \<open>The merge pass\<close>

text \<open>
  Modelled from the spec: \<open>MergeOptimizer\<close> is not in \<open>opt_utils.py\<close>.  Its contract in
  the specification: nodes that provably compute identical results become
  reference-identical, and leaves are never rewritten.  Two operands are the same when
  they are the same Value or constants of equal data (the two literals \<open>1\<close> of the
  specification's \<open>x + 1\<close> and \<open>y + 1\<close>).  Two distinct nodes compute identical results
  when they apply the same operation to pairwise same operands; the pass redirects
  every use of the outputs of the second to the outputs of the first, drops the second
  from the graph, and repeats until no such pair is left.
\<close>

definition same_operand :: "heap \<Rightarrow> variable_ref \<Rightarrow> variable_ref \<Rightarrow> bool" where
  "same_operand h u w \<longleftrightarrow> u = w \<or> (var_data h u \<noteq> None \<and> var_data h u = var_data h w)"

definition same_computation :: "heap \<Rightarrow> apply_ref \<Rightarrow> apply_ref \<Rightarrow> bool" where
  "same_computation h a b \<longleftrightarrow>
     a \<noteq> b \<and> app_op h a = app_op h b
     \<and> list_all2 (same_operand h) (app_inputs h a) (app_inputs h b)
     \<and> length (app_outputs h a) = length (app_outputs h b)"

fun find_duplicate :: "heap \<Rightarrow> apply_ref list \<Rightarrow> (apply_ref \<times> apply_ref) option" where
  "find_duplicate h [] = None"
| "find_duplicate h (a # ns) =
     (case find (same_computation h a) ns of
        Some b \<Rightarrow> Some (a, b)
      | None \<Rightarrow> find_duplicate h ns)"

definition unify :: "fgraph_ref \<Rightarrow> apply_ref \<Rightarrow> apply_ref \<Rightarrow> heap \<Rightarrow> heap" where
  "unify r a b h =
     rewire (\<lambda>u. case map_of (zip (app_outputs h b) (app_outputs h a)) u of
                   None \<Rightarrow> u | Some w \<Rightarrow> w)
       r (removeAll b (fg_apply_nodes (fgraphs h r))) h"

lemma find_duplicate_member:
  "find_duplicate h ns = Some (a, b) \<Longrightarrow> b \<in> set ns"
  by (induction ns) (auto split: option.splits simp: find_Some_iff)

lemma unify_nodes:
  "fg_apply_nodes (fgraphs (unify r a b h) r) = removeAll b (fg_apply_nodes (fgraphs h r))"
  by (simp add: unify_def rewire_def build_fgraph_def Let_def)

function merge_nodes :: "fgraph_ref \<Rightarrow> heap \<Rightarrow> heap" where
  "merge_nodes r h =
     (case find_duplicate h (fg_apply_nodes (fgraphs h r)) of
        None \<Rightarrow> h
      | Some (a, b) \<Rightarrow> merge_nodes r (unify r a b h))"
  by pat_completeness auto
termination
proof (relation "measure (\<lambda>(r, h). length (fg_apply_nodes (fgraphs h r)))")
  show "wf (measure (\<lambda>(r, h). length (fg_apply_nodes (fgraphs h r))))"
    by simp
next
  fix r h x2 a b
  assume "find_duplicate h (fg_apply_nodes (fgraphs h r)) = Some x2" and "(a, b) = x2"
  then have "b \<in> set (fg_apply_nodes (fgraphs h r))"
    using find_duplicate_member by metis
  then have "length (removeAll b (fg_apply_nodes (fgraphs h r)))
             < length (fg_apply_nodes (fgraphs h r))"
    by (simp add: length_removeAll_less)
  then show "((r, unify r a b h), (r, h))
             \<in> measure (\<lambda>(r, h). length (fg_apply_nodes (fgraphs h r)))"
    by (simp add: unify_nodes)
qed

declare merge_nodes.simps [simp del]

definition MergeOptimizer_model :: "fgraph_ref \<Rightarrow> unit action" where
  "MergeOptimizer_model r h = (Inr (), merge_nodes r h)"

subsection \<open>The structural comparator\<close>

text \<open>
  Modelled from the spec: \<open>equal_computations\<close> is not in \<open>opt_utils.py\<close>.  Its contract
  in the specification: it compares two lists of output Values for structural equality
  and treats each pair of the aligned lists \<open>in_xs\<close>, \<open>in_ys\<close> as equal.  Two Values are
  structurally equal when they are an assumed pair, or both are leaves and the same
  operand (the same Value, or constants of equal data), or both are the same output
  position of nodes with the same operation and pairwise structurally equal inputs.  The recursion follows owner edges; its depth is
  bounded by \<open>fuel\<close>, and \<open>None\<close> is a comparison that did not finish within the bound.
\<close>

fun all_equal :: "bool option list \<Rightarrow> bool option" where
  "all_equal [] = Some True"
| "all_equal (None # rest) = None"
| "all_equal (Some False # rest) = Some False"
| "all_equal (Some True # rest) = all_equal rest"

definition output_index :: "heap \<Rightarrow> apply_ref \<Rightarrow> variable_ref \<Rightarrow> nat" where
  "output_index h a v = length (takeWhile (\<lambda>u. u \<noteq> v) (app_outputs h a))"

fun same_structure ::
  "nat \<Rightarrow> heap \<Rightarrow> (variable_ref \<times> variable_ref) list \<Rightarrow> variable_ref \<Rightarrow> variable_ref
   \<Rightarrow> bool option" where
  "same_structure 0 h assumed x y = None"
| "same_structure (Suc n) h assumed x y =
     (if (x, y) \<in> set assumed then Some True
      else case var_owner h x of
        None \<Rightarrow> (case var_owner h y of
                   None \<Rightarrow> Some (same_operand h x y)
                 | Some b \<Rightarrow> Some False)
      | Some a \<Rightarrow>
         (case var_owner h y of
            None \<Rightarrow> Some False
          | Some b \<Rightarrow>
              if app_op h a = app_op h b
                 \<and> length (app_inputs h a) = length (app_inputs h b)
                 \<and> output_index h a x = output_index h b y
              then all_equal (map (\<lambda>p. same_structure n h assumed (fst p) (snd p))
                                  (zip (app_inputs h a) (app_inputs h b)))
              else Some False))"

definition equal_computations_model ::
  "nat \<Rightarrow> heap \<Rightarrow> variable_ref list \<Rightarrow> variable_ref list
   \<Rightarrow> variable_ref list option \<Rightarrow> variable_ref list option \<Rightarrow> error + bool" where
  "equal_computations_model fuel h xs ys in_xs in_ys =
     (let axs = (case in_xs of None \<Rightarrow> [] | Some l \<Rightarrow> l);
          ays = (case in_ys of None \<Rightarrow> [] | Some l \<Rightarrow> l)
      in if length xs \<noteq> length ys \<or> length axs \<noteq> length ays then Inr False
         else case all_equal (map (\<lambda>p. same_structure fuel h (zip axs ays) (fst p) (snd p))
                                  (zip xs ys)) of
                None \<Rightarrow> Inl RecursionError
              | Some b \<Rightarrow> Inr b)"

subsection \<open>The pass registry\<close>

text \<open>
  Modelled from the spec: \<open>optdb\<close> is not in \<open>opt_utils.py\<close>.  The specification has a
  registry that resolves pass names to one composed pass and propagates an unknown
  name as an error.  The registry here knows the one pass that is modelled, under the
  name \<open>merge\<close>.
\<close>

definition optdb_query_model :: "string list \<Rightarrow> kwargs \<Rightarrow> optimizer action" where
  "optdb_query_model include kwargs h =
     (if \<forall>name \<in> set include. name = ''merge''
      then (Inr \<lparr>truthy = True, optimize = MergeOptimizer_model\<rparr>, h)
      else (Inl UnregisteredPassName, h))"

definition model :: "nat \<Rightarrow> collaborators" where
  "model fuel =
     \<lparr>deepcopy = deepcopy_model,
      graph_inputs = graph_inputs_model,
      vars_between = vars_between_model,
      equal_computations = equal_computations_model fuel,
      FunctionGraph = FunctionGraph_model,
      replace = replace_model,
      MergeOptimizer_optimize = MergeOptimizer_model,
      optdb_query = optdb_query_model\<rparr>"

section \<open>Predicates of the statements\<close>

subsection \<open>Linear chains\<close>

text \<open>A linear chain of single-input, single-output nodes, listed from the node the
  traversal starts at down to the node whose output is the designated graph output.\<close>

definition single_io :: "heap \<Rightarrow> apply_ref \<Rightarrow> variable_ref \<Rightarrow> bool" where
  "single_io h n out \<longleftrightarrow>
     length (app_inputs h n) = 1 \<and> app_outputs h n = [out] \<and> var_owner h out = Some n"

fun is_output_only :: "client list option \<Rightarrow> bool" where
  "is_output_only (Some [(ClientOutput, i)]) = True"
| "is_output_only _ = False"

fun linear_chain :: "fgraph \<Rightarrow> heap \<Rightarrow> apply_ref list \<Rightarrow> bool" where
  "linear_chain fg h [] = False"
| "linear_chain fg h [n] =
     (case app_outputs h n of
        [out] \<Rightarrow> single_io h n out \<and> is_output_only (fg_clients fg out)
      | _ \<Rightarrow> False)"
| "linear_chain fg h (n # m # ns) =
     (case app_outputs h n of
        [out] \<Rightarrow> single_io h n out \<and> fg_clients fg out = Some [(ClientNode m, 0)]
                 \<and> app_inputs h m = [out] \<and> linear_chain fg h (m # ns)
      | _ \<Rightarrow> False)"

subsection \<open>The separability test\<close>

text \<open>\<open>cleanly_separable\<close> is the test of the specification on one pair of the
  substitution: one of the two Values belongs only to the Values of \<open>var1\<close> and the other
  only to those of \<open>var2\<close>.  \<open>side1\<close> and \<open>side2\<close> are the members of a separable pair on
  the side of \<open>var1\<close> and of \<open>var2\<close>.\<close>

definition cleanly_separable ::
  "variable_ref list \<Rightarrow> variable_ref list \<Rightarrow> variable_ref \<times> variable_ref \<Rightarrow> bool" where
  "cleanly_separable all1 all2 kv \<longleftrightarrow>
     (fst kv \<in> set all1 \<and> fst kv \<notin> set all2 \<and> snd kv \<in> set all2 \<and> snd kv \<notin> set all1)
   \<or> (fst kv \<in> set all2 \<and> fst kv \<notin> set all1 \<and> snd kv \<in> set all1 \<and> snd kv \<notin> set all2)"

definition side1 :: "variable_ref list \<Rightarrow> variable_ref \<times> variable_ref \<Rightarrow> variable_ref" where
  "side1 all1 kv = (if fst kv \<in> set all1 then fst kv else snd kv)"

definition side2 :: "variable_ref list \<Rightarrow> variable_ref \<times> variable_ref \<Rightarrow> variable_ref" where
  "side2 all1 kv = (if fst kv \<in> set all1 then snd kv else fst kv)"

subsection \<open>Well-formed producer graphs\<close>

text \<open>\<open>graph_ok n h v\<close>: the producers of \<open>v\<close> are allocated objects of \<open>h\<close> and the
  chain of producers below \<open>v\<close> has fewer than \<open>n\<close> nodes on every path, so that it has
  no cycle.\<close>

fun graph_ok :: "nat \<Rightarrow> heap \<Rightarrow> variable_ref \<Rightarrow> bool" where
  "graph_ok 0 h v = False"
| "graph_ok (Suc n) h v =
     (v < next_var h \<and>
      (case var_owner h v of
         None \<Rightarrow> True
       | Some a \<Rightarrow> a < next_app h \<and> list_all (graph_ok n h) (app_inputs h a)))"

subsection \<open>The graphs \<open>x + 1\<close> and \<open>y + 1\<close>\<close>

text \<open>\<open>plus_one_shape\<close>: \<open>x\<close> and \<open>y\<close> are distinct leaves (graph inputs: Variables without
  owner that are not constants), \<open>c1\<close> and \<open>c2\<close> are constants of data \<open>1\<close> (one for each
  sum, or one and the same for both), and \<open>v1\<close>, \<open>v2\<close> are the single outputs of two
  nodes with the same operation and the inputs \<open>[x, c1]\<close> and \<open>[y, c2]\<close>.
  \<open>plus_one_graphs\<close>: these objects are allocated in the heap.\<close>

definition plus_one_shape ::
  "heap \<Rightarrow> variable_ref \<Rightarrow> variable_ref \<Rightarrow> variable_ref \<Rightarrow> variable_ref
   \<Rightarrow> apply_ref \<Rightarrow> apply_ref \<Rightarrow> variable_ref \<Rightarrow> variable_ref \<Rightarrow> bool" where
  "plus_one_shape h x y c1 c2 n1 n2 v1 v2 \<longleftrightarrow>
     x \<noteq> y
   \<and> var_owner h x = None \<and> var_owner h y = None
   \<and> var_data h x = None \<and> var_data h y = None
   \<and> var_owner h c1 = None \<and> var_owner h c2 = None
   \<and> var_data h c1 = Some 1 \<and> var_data h c2 = Some 1
   \<and> var_owner h v1 = Some n1 \<and> var_owner h v2 = Some n2
   \<and> app_op h n1 = app_op h n2
   \<and> app_inputs h n1 = [x, c1] \<and> app_inputs h n2 = [y, c2]
   \<and> app_outputs h n1 = [v1] \<and> app_outputs h n2 = [v2]"

definition plus_one_graphs ::
  "heap \<Rightarrow> variable_ref \<Rightarrow> variable_ref \<Rightarrow> variable_ref \<Rightarrow> variable_ref
   \<Rightarrow> apply_ref \<Rightarrow> apply_ref \<Rightarrow> variable_ref \<Rightarrow> variable_ref \<Rightarrow> bool" where
  "plus_one_graphs h x y c1 c2 n1 n2 v1 v2 \<longleftrightarrow>
     plus_one_shape h x y c1 c2 n1 n2 v1 v2
   \<and> x < next_var h \<and> y < next_var h \<and> c1 < next_var h \<and> c2 < next_var h
   \<and> v1 < next_var h \<and> v2 < next_var h \<and> n1 < next_app h \<and> n2 < next_app h"

subsection \<open>Isolation of the caller's graph\<close>

text \<open>
  \<open>unchanged h h'\<close>: every Variable (owner and data), node and graph allocated in \<open>h\<close>
  is in \<open>h'\<close> as it is in \<open>h\<close>.  \<open>private_region V A h\<close>: the Variables from \<open>V\<close> on and the nodes from \<open>A\<close>
  on refer only to each other.  \<open>isolated h0 r h\<close>: the graph \<open>r\<close> was allocated after
  \<open>h0\<close>, its nodes are copies, and \<open>h\<close> still has the objects of \<open>h0\<close> as they were.
\<close>

definition unchanged :: "heap \<Rightarrow> heap \<Rightarrow> bool" where
  "unchanged h h' \<longleftrightarrow>
     (\<forall>v < next_var h. var_owner h' v = var_owner h v \<and> var_data h' v = var_data h v)
   \<and> (\<forall>a < next_app h. app_op h' a = app_op h a \<and> app_inputs h' a = app_inputs h a
                        \<and> app_outputs h' a = app_outputs h a)
   \<and> (\<forall>r < next_fg h. fgraphs h' r = fgraphs h r)
   \<and> next_fg h \<le> next_fg h' \<and> next_var h \<le> next_var h' \<and> next_app h \<le> next_app h'"

definition private_region :: "nat \<Rightarrow> nat \<Rightarrow> heap \<Rightarrow> bool" where
  "private_region V A h \<longleftrightarrow>
     (\<forall>v a. V \<le> v \<longrightarrow> var_owner h v = Some a \<longrightarrow> A \<le> a)
   \<and> (\<forall>a. A \<le> a \<longrightarrow> (\<forall>u \<in> set (app_inputs h a). V \<le> u)
                      \<and> (\<forall>u \<in> set (app_outputs h a). V \<le> u))"

definition isolated :: "heap \<Rightarrow> fgraph_ref \<Rightarrow> heap \<Rightarrow> bool" where
  "isolated h0 r h \<longleftrightarrow>
     unchanged h0 h \<and> private_region (next_var h0) (next_app h0) h \<and> next_fg h0 \<le> r
   \<and> (\<forall>a \<in> set (fg_apply_nodes (fgraphs h r)). next_app h0 \<le> a)"

text \<open>The structural snapshot of the objects allocated in \<open>h0\<close>, read in the heap \<open>h\<close>:
  the owner and the data of every Variable, the operation, inputs and outputs of every
  node, and every graph with its client index.\<close>

definition snapshot ::
  "heap \<Rightarrow> heap \<Rightarrow>
   (apply_ref option \<times> nat option) list
   \<times> (nat \<times> variable_ref list \<times> variable_ref list) list \<times> fgraph list" where
  "snapshot h0 h =
     (map (\<lambda>v. (var_owner h v, var_data h v)) [0..<next_var h0],
      map (\<lambda>a. (app_op h a, app_inputs h a, app_outputs h a)) [0..<next_app h0],
      map (fgraphs h) [0..<next_fg h0])"

text \<open>The heap after the copy and the construction of the graph on the two copied
  outputs, and the copied substitution.\<close>

definition private_graph :: "variable_ref \<Rightarrow> variable_ref \<Rightarrow> heap \<Rightarrow> heap" where
  "private_graph var1 var2 h =
     snd (FunctionGraph_model
            (Some (filter (\<lambda>v. var_owner (copy_heap h) v = None)
                     (ancestors (copy_heap h) [] [var1 + next_var h, var2 + next_var h])))
            [var1 + next_var h, var2 + next_var h] False (copy_heap h))"

definition copied_givens :: "heap \<Rightarrow> givens \<Rightarrow> givens" where
  "copied_givens h g = map (\<lambda>kv. (fst kv + next_var h, snd kv + next_var h)) g"

section \<open>Example heaps\<close>

subsection \<open>The graphs \<open>x + 1\<close> and \<open>y + 1\<close>\<close>

text \<open>Variables 0 and 1 are the leaves \<open>x\<close> and \<open>y\<close>, Variable 2 is a constant \<open>1\<close>;
  node 0 is \<open>x + 1\<close> with output Variable 3, node 1 is \<open>y + 1\<close> with output Variable 4.
  In \<open>sum_heap\<close> the two sums share the constant.\<close>

definition no_fgraph :: fgraph where
  "no_fgraph = \<lparr>fg_inputs = [], fg_outputs = [], fg_clients = Map.empty,
                fg_apply_nodes = [], fg_variables = []\<rparr>"

definition sum_heap :: heap where
  "sum_heap =
     \<lparr>var_owner = (\<lambda>v. if v = 3 then Some 0 else if v = 4 then Some 1 else None),
      var_data = (\<lambda>v. if v = 2 then Some 1 else None),
      app_op = (\<lambda>a. 0),
      app_inputs = (\<lambda>a. if a = 0 then [0, 2] else if a = 1 then [1, 2] else []),
      app_outputs = (\<lambda>a. if a = 0 then [3] else if a = 1 then [4] else []),
      fgraphs = (\<lambda>r. no_fgraph),
      next_var = 5, next_app = 2, next_fg = 0\<rparr>"


text \<open>The heap after \<open>FunctionGraph(outputs=[x])\<close> on the example: graph 0 has the leaf
  \<open>x\<close> as its input and output and no node.\<close>

definition leaf_graph_heap :: heap where
  "leaf_graph_heap =
     sum_heap\<lparr>fgraphs := (fgraphs sum_heap)(0 := build_fgraph sum_heap [0] [0] []),
               next_fg := 1\<rparr>"

text \<open>Collaborators whose structural comparator answers \<open>False\<close> whatever it is asked:
  a comparator with a defect.\<close>

definition contrary :: collaborators where
  "contrary = (model 0)\<lparr>equal_computations := (\<lambda>h xs ys in_xs in_ys. Inr False)\<rparr>"

subsection \<open>A chain of three nodes\<close>

text \<open>Variable 0 is the graph input; node \<open>a\<close> consumes Variable \<open>a\<close> and produces
  Variable \<open>a + 1\<close>; Variable 3 is the designated graph output.\<close>

definition chain_heap :: heap where
  "chain_heap =
     \<lparr>var_owner = (\<lambda>v. if v = 0 then None else Some (v - 1)),
      var_data = (\<lambda>v. None),
      app_op = (\<lambda>a. 0),
      app_inputs = (\<lambda>a. [a]),
      app_outputs = (\<lambda>a. [a + 1]),
      fgraphs = (\<lambda>r. \<lparr>fg_inputs = [], fg_outputs = [], fg_clients = Map.empty,
                         fg_apply_nodes = [], fg_variables = []\<rparr>),
      next_var = 4, next_app = 3, next_fg = 0\<rparr>"

definition chain_fgraph :: fgraph where
  "chain_fgraph =
     \<lparr>fg_inputs = [0], fg_outputs = [3],
      fg_clients = [0 \<mapsto> [(ClientNode 0, 0)], 1 \<mapsto> [(ClientNode 1, 0)],
                    2 \<mapsto> [(ClientNode 2, 0)], 3 \<mapsto> [(ClientOutput, 0)]],
      fg_apply_nodes = [0, 1, 2], fg_variables = [0, 1, 2, 3]\<rparr>"

subsection \<open>The graph \<open>(x + 1) * (x + 1)\<close>\<close>

text \<open>Variable 0 is the leaf \<open>x\<close>, Variables 1 and 2 are the constants \<open>1\<close> of the two
  sums; nodes 0 and 1 are the sums \<open>x + 1\<close> with the outputs 3 and 4, and node 2 is
  their product with the output 5.  \<open>square_heap\<close> holds graph 0 over these nodes, with
  the designated output 5.\<close>

definition square_nodes :: heap where
  "square_nodes =
     \<lparr>var_owner = (\<lambda>v. if v = 3 then Some 0 else if v = 4 then Some 1
                         else if v = 5 then Some 2 else None),
      var_data = (\<lambda>v. if v = 1 \<or> v = 2 then Some 1 else None),
      app_op = (\<lambda>a. if a = 2 then 1 else 0),
      app_inputs = (\<lambda>a. if a = 0 then [0, 1] else if a = 1 then [0, 2]
                          else if a = 2 then [3, 4] else []),
      app_outputs = (\<lambda>a. if a = 0 then [3] else if a = 1 then [4]
                           else if a = 2 then [5] else []),
      fgraphs = (\<lambda>r. no_fgraph),
      next_var = 6, next_app = 3, next_fg = 0\<rparr>"

definition square_heap :: heap where
  "square_heap =
     square_nodes\<lparr>fgraphs := (fgraphs square_nodes)
                     (0 := build_fgraph square_nodes [0, 1, 2] [5] [0, 1, 2]),
                   next_fg := 1\<rparr>"

text \<open>A pass that raises, with the graph it was given in the exception.\<close>

definition failing_pass :: optimizer where
  "failing_pass = \<lparr>truthy = True, optimize = (\<lambda>fg h. (Inl (OtherError fg), h))\<rparr>"

section \<open>The merge-based checker works on a private copy\<close>

lemma unchangedI:
  assumes "\<And>v. v < next_var h \<Longrightarrow> var_owner h' v = var_owner h v"
    and "\<And>a. a < next_app h \<Longrightarrow> app_op h' a = app_op h a"
    and "\<And>a. a < next_app h \<Longrightarrow> app_inputs h' a = app_inputs h a"
    and "\<And>a. a < next_app h \<Longrightarrow> app_outputs h' a = app_outputs h a"
    and "\<And>r. r < next_fg h \<Longrightarrow> fgraphs h' r = fgraphs h r"
    and "next_fg h \<le> next_fg h'" and "next_var h \<le> next_var h'"
    and "next_app h \<le> next_app h'"
    and "\<And>v. v < next_var h \<Longrightarrow> var_data h' v = var_data h v"
  shows "unchanged h h'"
  using assms unfolding unchanged_def by blast

lemma unchangedD:
  assumes "unchanged h h'"
  shows "v < next_var h \<Longrightarrow> var_owner h' v = var_owner h v"
    and "a < next_app h \<Longrightarrow> app_op h' a = app_op h a"
    and "a < next_app h \<Longrightarrow> app_inputs h' a = app_inputs h a"
    and "a < next_app h \<Longrightarrow> app_outputs h' a = app_outputs h a"
    and "r < next_fg h \<Longrightarrow> fgraphs h' r = fgraphs h r"
    and "next_fg h \<le> next_fg h'" and "next_var h \<le> next_var h'"
    and "next_app h \<le> next_app h'"
    and "v < next_var h \<Longrightarrow> var_data h' v = var_data h v"
  using assms unfolding unchanged_def by blast+

lemma private_regionI:
  assumes "\<And>v a. V \<le> v \<Longrightarrow> var_owner h v = Some a \<Longrightarrow> A \<le> a"
    and "\<And>a u. A \<le> a \<Longrightarrow> u \<in> set (app_inputs h a) \<Longrightarrow> V \<le> u"
    and "\<And>a u. A \<le> a \<Longrightarrow> u \<in> set (app_outputs h a) \<Longrightarrow> V \<le> u"
  shows "private_region V A h"
  using assms unfolding private_region_def by blast

lemma private_regionD:
  assumes "private_region V A h"
  shows "V \<le> v \<Longrightarrow> var_owner h v = Some a \<Longrightarrow> A \<le> a"
    and "A \<le> b \<Longrightarrow> u \<in> set (app_inputs h b) \<Longrightarrow> V \<le> u"
    and "A \<le> b \<Longrightarrow> u \<in> set (app_outputs h b) \<Longrightarrow> V \<le> u"
  using assms unfolding private_region_def by blast+

lemma unchanged_refl: "unchanged h h"
  by (rule unchangedI) simp_all

lemma copy_heap_unchanged: "unchanged h (copy_heap h)"
  by (rule unchangedI) (simp_all add: copy_heap_def Let_def)

lemma copy_heap_private: "private_region (next_var h) (next_app h) (copy_heap h)"
  by (rule private_regionI) (auto simp: copy_heap_def Let_def split: if_splits)

lemma producers_private:
  assumes "private_region V A h" and "\<forall>v \<in> set vs. V \<le> v"
  shows "\<forall>u \<in> set (producers h stop vs). V \<le> u"
proof
  fix u assume "u \<in> set (producers h stop vs)"
  then obtain v a where "v \<in> set vs" "var_owner h v = Some a" "u \<in> set (app_inputs h a)"
    by (auto simp: producers_def split: option.splits if_splits) metis
  with private_regionD(2) [OF assms(1)] private_regionD(1) [OF assms(1)] assms(2)
  show "V \<le> u" by blast
qed

lemma walk_back_private:
  "private_region V A h \<Longrightarrow> \<forall>v \<in> set vs. V \<le> v \<Longrightarrow> \<forall>u \<in> set (walk_back n h stop vs). V \<le> u"
proof (induction n arbitrary: vs)
  case 0
  then show ?case by simp
next
  case (Suc n)
  from producers_private [OF Suc.prems] Suc.prems(2)
  have "\<forall>v \<in> set (remdups (vs @ producers h stop vs)). V \<le> v" by auto
  from Suc.IH [OF Suc.prems(1) this] show ?case by simp
qed

lemma ancestors_private:
  "private_region V A h \<Longrightarrow> \<forall>v \<in> set vs. V \<le> v \<Longrightarrow> \<forall>u \<in> set (ancestors h stop vs). V \<le> u"
  unfolding ancestors_def by (rule walk_back_private) auto

lemma graph_nodes_private:
  assumes "private_region V A h" and "\<forall>v \<in> set vs. V \<le> v"
  shows "\<forall>a \<in> set (graph_nodes h vs). A \<le> a"
proof
  fix a assume "a \<in> set (graph_nodes h vs)"
  then obtain v where "v \<in> set vs" "var_owner h v = Some a"
    by (auto simp: graph_nodes_def split: option.splits)
  with private_regionD(1) [OF assms(1)] assms(2) show "A \<le> a" by blast
qed

lemma build_fgraph_fields [simp]:
  "fg_apply_nodes (build_fgraph h ins outs nodes) = nodes"
  "fg_outputs (build_fgraph h ins outs nodes) = outs"
  "fg_inputs (build_fgraph h ins outs nodes) = ins"
  by (simp_all add: build_fgraph_def Let_def)

lemma FunctionGraph_model_heap:
  "snd (FunctionGraph_model (Some ins) outs False h) =
     h\<lparr>fgraphs := (fgraphs h)(next_fg h :=
            build_fgraph h ins outs (graph_nodes h (ancestors h ins outs))),
       next_fg := Suc (next_fg h)\<rparr>"
  "fst (FunctionGraph_model (Some ins) outs False h) = Inr (next_fg h)"
  by (simp_all add: FunctionGraph_model_def Let_def)

lemma FunctionGraph_model_isolated:
  assumes "unchanged h0 h" and "private_region (next_var h0) (next_app h0) h"
    and "\<forall>v \<in> set outs. next_var h0 \<le> v"
  shows "isolated h0 (next_fg h) (snd (FunctionGraph_model (Some ins) outs False h))"
proof -
  let ?h' = "snd (FunctionGraph_model (Some ins) outs False h)"
  from ancestors_private [OF assms(2,3)]
  have "\<forall>u \<in> set (ancestors h ins outs). next_var h0 \<le> u" .
  from graph_nodes_private [OF assms(2) this]
  have n: "\<forall>a \<in> set (graph_nodes h (ancestors h ins outs)). next_app h0 \<le> a" .
  note d = unchangedD [OF assms(1)]
  have u: "unchanged h0 ?h'"
  proof (rule unchangedI)
    fix r assume "r < next_fg h0"
    with d(6) have "r \<noteq> next_fg h" by simp
    with d(5) [OF \<open>r < next_fg h0\<close>] show "fgraphs ?h' r = fgraphs h0 r"
      by (simp add: FunctionGraph_model_heap)
  next
    from d(6) show "next_fg h0 \<le> next_fg ?h'" by (simp add: FunctionGraph_model_heap)
  qed (simp_all add: FunctionGraph_model_heap d)
  note q = private_regionD [OF assms(2)]
  have p: "private_region (next_var h0) (next_app h0) ?h'"
  proof (rule private_regionI)
    fix v a assume "next_var h0 \<le> v" "var_owner ?h' v = Some a"
    then show "next_app h0 \<le> a" using q(1) by (simp add: FunctionGraph_model_heap)
  next
    fix a u assume "next_app h0 \<le> a" "u \<in> set (app_inputs ?h' a)"
    then show "next_var h0 \<le> u" using q(2) by (simp add: FunctionGraph_model_heap)
  next
    fix a u assume "next_app h0 \<le> a" "u \<in> set (app_outputs ?h' a)"
    then show "next_var h0 \<le> u" using q(3) by (simp add: FunctionGraph_model_heap)
  qed
  from n have "\<forall>a \<in> set (fg_apply_nodes (fgraphs ?h' (next_fg h))). next_app h0 \<le> a"
    by (simp add: FunctionGraph_model_heap)
  with u p d(6) show ?thesis
    by (simp add: isolated_def)
qed

lemma rewire_fields [simp]:
  "var_owner (rewire \<sigma> r nodes h) = var_owner h"
  "var_data (rewire \<sigma> r nodes h) = var_data h"
  "app_op (rewire \<sigma> r nodes h) = app_op h"
  "app_outputs (rewire \<sigma> r nodes h) = app_outputs h"
  "next_var (rewire \<sigma> r nodes h) = next_var h"
  "next_app (rewire \<sigma> r nodes h) = next_app h"
  "next_fg (rewire \<sigma> r nodes h) = next_fg h"
  "app_inputs (rewire \<sigma> r nodes h) a =
     (if a \<in> set (fg_apply_nodes (fgraphs h r)) then map \<sigma> (app_inputs h a) else app_inputs h a)"
  "r' \<noteq> r \<Longrightarrow> fgraphs (rewire \<sigma> r nodes h) r' = fgraphs h r'"
  "fg_apply_nodes (fgraphs (rewire \<sigma> r nodes h) r) = nodes"
  "fg_outputs (fgraphs (rewire \<sigma> r nodes h) r) = map \<sigma> (fg_outputs (fgraphs h r))"
  "fg_inputs (fgraphs (rewire \<sigma> r nodes h) r) = fg_inputs (fgraphs h r)"
  by (simp_all add: rewire_def Let_def)

lemma rewire_isolated:
  assumes "isolated h0 r h" and "\<And>u. next_var h0 \<le> u \<Longrightarrow> next_var h0 \<le> \<sigma> u"
    and "\<forall>a \<in> set nodes. next_app h0 \<le> a"
  shows "isolated h0 r (rewire \<sigma> r nodes h)"
proof -
  from assms(1) have u: "unchanged h0 h" and p: "private_region (next_var h0) (next_app h0) h"
    and r: "next_fg h0 \<le> r" and n: "\<forall>a \<in> set (fg_apply_nodes (fgraphs h r)). next_app h0 \<le> a"
    by (simp_all add: isolated_def)
  note d = unchangedD [OF u]
  have out: "a \<notin> set (fg_apply_nodes (fgraphs h r))" if "a < next_app h0" for a
    using n that by auto
  have u': "unchanged h0 (rewire \<sigma> r nodes h)"
  proof (rule unchangedI)
    fix a assume "a < next_app h0"
    then show "app_inputs (rewire \<sigma> r nodes h) a = app_inputs h0 a"
      by (simp add: out d)
  next
    fix r' assume "r' < next_fg h0"
    with r have "r' \<noteq> r" by simp
    with d(5) [OF \<open>r' < next_fg h0\<close>] show "fgraphs (rewire \<sigma> r nodes h) r' = fgraphs h0 r'"
      by simp
  qed (simp_all add: d)
  have p': "private_region (next_var h0) (next_app h0) (rewire \<sigma> r nodes h)"
  proof (rule private_regionI)
    fix v a assume "next_var h0 \<le> v" "var_owner (rewire \<sigma> r nodes h) v = Some a"
    with private_regionD(1) [OF p] show "next_app h0 \<le> a" by simp
  next
    fix a u assume a: "next_app h0 \<le> a" and "u \<in> set (app_inputs (rewire \<sigma> r nodes h) a)"
    then have "u \<in> set (app_inputs h a) \<or> (\<exists>w \<in> set (app_inputs h a). u = \<sigma> w)"
      by (auto split: if_splits)
    moreover from private_regionD(2) [OF p a] have "\<forall>w \<in> set (app_inputs h a). next_var h0 \<le> w"
      by blast
    ultimately show "next_var h0 \<le> u" using assms(2) by blast
  next
    fix a u assume "next_app h0 \<le> a" and "u \<in> set (app_outputs (rewire \<sigma> r nodes h) a)"
    with private_regionD(3) [OF p] show "next_var h0 \<le> u" by simp
  qed
  from u' p' r assms(3) show ?thesis
    by (simp add: isolated_def)
qed

lemma replace_model_isolated:
  assumes "isolated h0 r h" and "next_var h0 \<le> new"
  shows "isolated h0 r (snd (replace_model r old new h))"
proof (cases "old \<in> set (fg_variables (fgraphs h r))")
  case False
  with assms show ?thesis by (simp add: replace_model_def Let_def)
next
  case True
  from assms(1) have p: "private_region (next_var h0) (next_app h0) h"
    by (simp add: isolated_def)
  from assms(2) have "\<forall>v \<in> set [new]. next_var h0 \<le> v" by simp
  from graph_nodes_private [OF p ancestors_private [OF p this]]
  have "\<forall>a \<in> set (graph_nodes h (ancestors h (fg_inputs (fgraphs h r)) [new])). next_app h0 \<le> a" .
  with assms(1) have n: "\<forall>a \<in> set (remdups (fg_apply_nodes (fgraphs h r)
        @ graph_nodes h (ancestors h (fg_inputs (fgraphs h r)) [new]))). next_app h0 \<le> a"
    by (auto simp: isolated_def)
  from assms(2) have s: "\<And>u. next_var h0 \<le> u \<Longrightarrow> next_var h0 \<le> (if u = old then new else u)"
    by simp
  from rewire_isolated [OF assms(1) s n] True show ?thesis
    by (simp add: replace_model_def Let_def)
qed

lemma model_fields [simp]:
  "deepcopy (model fuel) = deepcopy_model"
  "graph_inputs (model fuel) = graph_inputs_model"
  "vars_between (model fuel) = vars_between_model"
  "equal_computations (model fuel) = equal_computations_model fuel"
  "FunctionGraph (model fuel) = FunctionGraph_model"
  "replace (model fuel) = replace_model"
  "MergeOptimizer_optimize (model fuel) = MergeOptimizer_model"
  "optdb_query (model fuel) = optdb_query_model"
  by (simp_all add: model_def)

lemma replace_all_isolated:
  "isolated h0 r h \<Longrightarrow> \<forall>kv \<in> set g. next_var h0 \<le> snd kv
   \<Longrightarrow> isolated h0 r (snd (replace_all (model fuel) r g h))"
proof (induction g arbitrary: h)
  case Nil
  then show ?case by simp
next
  case (Cons kv g)
  obtain k v where kv: "kv = (k, v)" by (cases kv)
  from Cons.prems have i: "isolated h0 r (snd (replace_model r k v h))"
    by (simp add: replace_model_isolated kv)
  obtain res h1 where r1: "replace_model r k v h = (res, h1)" by (cases "replace_model r k v h")
  with i have i1: "isolated h0 r h1" by simp
  show ?case
  proof (cases res)
    case (Inl e)
    with r1 i1 show ?thesis by (simp add: kv seq_def)
  next
    case (Inr u)
    from Cons.IH [OF i1] Cons.prems(2) have "isolated h0 r (snd (replace_all (model fuel) r g h1))"
      by simp
    with r1 Inr show ?thesis by (simp add: kv seq_def)
  qed
qed

lemma find_duplicate_first:
  "find_duplicate h ns = Some (a, b) \<Longrightarrow> a \<in> set ns"
  by (induction ns) (auto split: option.splits)

lemma unify_isolated:
  assumes "isolated h0 r h" and "a \<in> set (fg_apply_nodes (fgraphs h r))"
  shows "isolated h0 r (unify r a b h)"
  unfolding unify_def
proof (rule rewire_isolated [OF assms(1)])
  from assms have a: "next_app h0 \<le> a" by (simp add: isolated_def)
  from assms(1) have p: "private_region (next_var h0) (next_app h0) h"
    by (simp add: isolated_def)
  from private_regionD(3) [OF p a] have o: "\<forall>u \<in> set (app_outputs h a). next_var h0 \<le> u"
    by blast
  fix u assume u: "next_var h0 \<le> u"
  show "next_var h0 \<le> (case map_of (zip (app_outputs h b) (app_outputs h a)) u of
                        None \<Rightarrow> u | Some w \<Rightarrow> w)"
  proof (cases "map_of (zip (app_outputs h b) (app_outputs h a)) u")
    case None
    with u show ?thesis by simp
  next
    case (Some w)
    then have "w \<in> set (app_outputs h a)"
      by (auto dest!: map_of_SomeD set_zip_rightD)
    with o Some show ?thesis by simp
  qed
next
  from assms(1) show "\<forall>a \<in> set (removeAll b (fg_apply_nodes (fgraphs h r))). next_app h0 \<le> a"
    by (simp add: isolated_def)
qed

lemma merge_nodes_isolated:
  "isolated h0 r h \<Longrightarrow> isolated h0 r (merge_nodes r h)"
proof (induction r h rule: merge_nodes.induct)
  case (1 r h)
  show ?case
  proof (cases "find_duplicate h (fg_apply_nodes (fgraphs h r))")
    case None
    with "1.prems" show ?thesis by (subst merge_nodes.simps) simp
  next
    case (Some ab)
    obtain a b where ab: "ab = (a, b)" by (cases ab)
    from Some ab have "a \<in> set (fg_apply_nodes (fgraphs h r))"
      by (simp add: find_duplicate_first)
    from unify_isolated [OF "1.prems" this] have "isolated h0 r (unify r a b h)" .
    from "1.IH" [OF Some ab [symmetric] this] Some ab show ?thesis
      by (subst merge_nodes.simps) simp
  qed
qed

lemma copy_heap_next_fg [simp]: "next_fg (copy_heap h) = next_fg h"
  by (simp add: copy_heap_def Let_def)

lemma FunctionGraph_model_pair:
  "FunctionGraph_model (Some ins) outs False h =
     (Inr (next_fg h), snd (FunctionGraph_model (Some ins) outs False h))"
  by (simp add: FunctionGraph_model_def Let_def)

lemma merged_graph_model:
  "merged_graph (model fuel) var1 var2 givens h =
     (case replace_all (model fuel) (next_fg h)
             (copied_givens h (case givens of None \<Rightarrow> [] | Some g \<Rightarrow> g))
             (private_graph var1 var2 h) of
        (Inl e, h3) \<Rightarrow> (Inl e, h3)
      | (Inr u, h3) \<Rightarrow>
          (Inr (next_fg h, copied_givens h (case givens of None \<Rightarrow> [] | Some g \<Rightarrow> g)),
           merge_nodes (next_fg h) h3))"
  unfolding merged_graph_def private_graph_def copied_givens_def
  apply (simp add: seq_def reading_def deepcopy_model_def graph_inputs_model_def
      MergeOptimizer_model_def)
  apply (subst FunctionGraph_model_pair)
  apply (simp add: seq_def MergeOptimizer_model_def split: prod.splits sum.splits)
  done

lemma private_graph_isolated:
  "isolated h (next_fg h) (private_graph var1 var2 h)"
proof -
  have "isolated h (next_fg (copy_heap h)) (private_graph var1 var2 h)"
    unfolding private_graph_def
    by (rule FunctionGraph_model_isolated [OF copy_heap_unchanged copy_heap_private]) simp
  then show ?thesis by simp
qed

lemma merged_graph_isolated:
  "isolated h (next_fg h) (snd (merged_graph (model fuel) var1 var2 givens h))"
proof -
  let ?g = "copied_givens h (case givens of None \<Rightarrow> [] | Some g \<Rightarrow> g)"
  have "\<forall>kv \<in> set ?g. next_var h \<le> snd kv"
    by (auto simp: copied_givens_def)
  from replace_all_isolated [OF private_graph_isolated this]
  have i: "isolated h (next_fg h)
             (snd (replace_all (model fuel) (next_fg h) ?g (private_graph var1 var2 h)))" .
  obtain res h3 where r: "replace_all (model fuel) (next_fg h) ?g (private_graph var1 var2 h)
      = (res, h3)" by (cases "replace_all (model fuel) (next_fg h) ?g (private_graph var1 var2 h)")
  with i have i3: "isolated h (next_fg h) h3" by simp
  show ?thesis
  proof (cases res)
    case (Inl e)
    with r i3 show ?thesis by (simp add: merged_graph_model)
  next
    case (Inr u)
    with r merge_nodes_isolated [OF i3] show ?thesis by (simp add: merged_graph_model)
  qed
qed

lemma is_same_graph_with_merge_heap:
  "snd (is_same_graph_with_merge C var1 var2 givens h) = snd (merged_graph C var1 var2 givens h)"
  by (simp add: is_same_graph_with_merge_def seq_def reading_def split: prod.splits sum.splits)

lemma is_same_graph_heap:
  "snd (is_same_graph C var1 var2 givens h) =
   snd (merged_graph C var1 var2 (Some (givens_dict givens)) h)"
  by (simp add: is_same_graph_def is_same_graph_with_merge_heap [symmetric] seq_def reading_def
           split: prod.splits sum.splits option.splits)

lemma is_same_graph_unchanged:
  "unchanged h (snd (is_same_graph (model fuel) var1 var2 givens h))"
  using merged_graph_isolated [of h fuel var1 var2 "Some (givens_dict givens)"]
  by (simp add: is_same_graph_heap isolated_def)

section \<open>Comparing a Variable with itself\<close>

lemma all_equal_True:
  "(\<And>x. x \<in> set xs \<Longrightarrow> f x = Some True) \<Longrightarrow> all_equal (map f xs) = Some True"
  by (induction xs) auto

lemma all_equal_zip_same:
  "(\<And>u. u \<in> set xs \<Longrightarrow> f u u = Some True)
   \<Longrightarrow> all_equal (map (\<lambda>p. f (fst p) (snd p)) (zip xs xs)) = Some True"
  by (induction xs) auto

lemma same_structure_leaf:
  "var_owner h x = None \<Longrightarrow> var_owner h y = None \<Longrightarrow> (x, y) \<notin> set asm
   \<Longrightarrow> same_structure (Suc m) h asm x y = Some (same_operand h x y)"
  by simp

lemma same_structure_node:
  "var_owner h x = Some a \<Longrightarrow> var_owner h y = Some b \<Longrightarrow> (x, y) \<notin> set asm
   \<Longrightarrow> same_structure (Suc m) h asm x y =
      (if app_op h a = app_op h b \<and> length (app_inputs h a) = length (app_inputs h b)
          \<and> output_index h a x = output_index h b y
       then all_equal (map (\<lambda>p. same_structure m h asm (fst p) (snd p))
                          (zip (app_inputs h a) (app_inputs h b)))
       else Some False)"
  by simp

lemma same_structure_assumed:
  "(x, y) \<in> set asm \<Longrightarrow> same_structure (Suc m) h asm x y = Some True"
  by simp

declare same_structure.simps(2) [simp del]

lemma same_structure_refl_leaf:
  "var_owner h v = None \<Longrightarrow> same_structure (Suc m) h [] v v = Some True"
  by (simp add: same_structure_leaf same_operand_def)

lemma same_structure_refl_node:
  assumes "var_owner h v = Some a"
    and "\<And>u. u \<in> set (app_inputs h a) \<Longrightarrow> same_structure m h [] u u = Some True"
  shows "same_structure (Suc m) h [] v v = Some True"
proof -
  from assms(2)
  have "all_equal (map (\<lambda>p. same_structure m h [] (fst p) (snd p))
                 (zip (app_inputs h a) (app_inputs h a))) = Some True"
    by (rule all_equal_zip_same)
  then show ?thesis
    by (simp add: same_structure_node [OF assms(1) assms(1)])
qed

lemma same_structure_refl:
  "graph_ok n h v \<Longrightarrow> unchanged h h' \<Longrightarrow> n \<le> fuel \<Longrightarrow> same_structure fuel h' [] v v = Some True"
proof (induction n arbitrary: v fuel)
  case 0
  then show ?case by simp
next
  case (Suc n)
  from Suc.prems(3) obtain m where fuel: "fuel = Suc m" and m: "n \<le> m"
    by (cases fuel) auto
  from Suc.prems(1) have v: "v < next_var h" by simp
  note d = unchangedD [OF Suc.prems(2)]
  from d(1) [OF v] have o: "var_owner h' v = var_owner h v" .
  show ?case
  proof (cases "var_owner h v")
    case None
    with o have "var_owner h' v = None" by simp
    then show ?thesis
      unfolding fuel by (rule same_structure_refl_leaf)
  next
    case (Some a)
    with Suc.prems(1) have a: "a < next_app h" by simp
    from Some Suc.prems(1) have ins: "list_all (graph_ok n h) (app_inputs h a)" by simp
    from o Some have o': "var_owner h' v = Some a" by simp
    show ?thesis
      unfolding fuel
    proof (rule same_structure_refl_node [OF o'])
      fix u assume "u \<in> set (app_inputs h' a)"
      with d(3) [OF a] have "u \<in> set (app_inputs h a)" by simp
      with ins have "graph_ok n h u" by (simp add: list_all_iff)
      from Suc.IH [OF this Suc.prems(2) m] show "same_structure m h' [] u u = Some True" .
    qed
  qed
qed

lemma equal_computations_model_refl:
  assumes "graph_ok n h v" and "unchanged h h'" and "n \<le> fuel"
  shows "equal_computations_model fuel h' [v] [v] None None = Inr True"
  using same_structure_refl [OF assms]
  by (simp add: equal_computations_model_def)

lemma unify_outputs:
  "fg_outputs (fgraphs (unify r a b h) r) =
     map (\<lambda>u. case map_of (zip (app_outputs h b) (app_outputs h a)) u of
                 None \<Rightarrow> u | Some w \<Rightarrow> w) (fg_outputs (fgraphs h r))"
  by (simp add: unify_def)

lemma merge_nodes_outputs_pair:
  "fg_outputs (fgraphs h r) = [u, u] \<Longrightarrow> \<exists>w. fg_outputs (fgraphs (merge_nodes r h) r) = [w, w]"
proof (induction r h arbitrary: u rule: merge_nodes.induct)
  case (1 r h)
  show ?case
  proof (cases "find_duplicate h (fg_apply_nodes (fgraphs h r))")
    case None
    with "1.prems" show ?thesis by (subst merge_nodes.simps) simp
  next
    case (Some ab)
    obtain a b where ab: "ab = (a, b)" by (cases ab)
    from "1.prems" obtain u' where "fg_outputs (fgraphs (unify r a b h) r) = [u', u']"
      by (simp add: unify_outputs)
    from "1.IH" [OF Some ab [symmetric] this] Some ab show ?thesis
      by (subst merge_nodes.simps) simp
  qed
qed

lemma private_graph_outputs:
  "fg_outputs (fgraphs (private_graph var1 var2 h) (next_fg h))
     = [var1 + next_var h, var2 + next_var h]"
  by (simp add: private_graph_def FunctionGraph_model_heap)

lemma merge_reflexive:
  "is_same_graph_with_merge (model fuel) v v (Some []) h =
     (Inr True, merge_nodes (next_fg h) (private_graph v v h))"
proof -
  from merge_nodes_outputs_pair [OF private_graph_outputs [of v v h]]
  obtain w where "fg_outputs (fgraphs (merge_nodes (next_fg h) (private_graph v v h)) (next_fg h))
      = [w, w]" by blast
  then have "compare_outputs (merge_nodes (next_fg h) (private_graph v v h)) (next_fg h) [] = Inr True"
    by (simp add: compare_outputs_def givens_get_def Let_def)
  then show ?thesis
    by (simp add: is_same_graph_with_merge_def seq_def merged_graph_model copied_givens_def
          reading_def)
qed

lemma is_same_graph_reflexive_dict:
  assumes "graph_ok n h v" and "n \<le> fuel" and "givens_dict givens = []"
  shows "is_same_graph (model fuel) v v givens h =
           (Inr True, merge_nodes (next_fg h) (private_graph v v h))"
proof -
  let ?h' = "merge_nodes (next_fg h) (private_graph v v h)"
  have "unchanged h ?h'"
    using merge_nodes_isolated [OF private_graph_isolated [of h v v]]
    by (simp add: isolated_def)
  from equal_computations_model_refl [OF assms(1) this assms(2)]
  show ?thesis
    by (simp add: is_same_graph_def assms(3) merge_reflexive seq_def reading_def in_lists_def)
qed

section \<open>The cross-validation lists\<close>

lemma separate_None:
  "\<exists>kv \<in> set g. \<not> cleanly_separable all1 all2 kv \<Longrightarrow> separate all1 all2 g xs ys = None"
  by (induction all1 all2 g xs ys rule: separate.induct) (auto simp: cleanly_separable_def)

lemma separate_Some:
  "\<forall>kv \<in> set g. cleanly_separable all1 all2 kv
   \<Longrightarrow> separate all1 all2 g xs ys = Some (xs @ map (side1 all1) g, ys @ map (side2 all1) g)"
  by (induction all1 all2 g xs ys rule: separate.induct)
     (auto simp: cleanly_separable_def side1_def side2_def)

lemma replace_all_cong:
  "replace C = replace C' \<Longrightarrow> replace_all C fg g = replace_all C' fg g"
  by (induction g) auto

lemma is_same_graph_with_merge_cong:
  assumes "deepcopy C = deepcopy C'" "graph_inputs C = graph_inputs C'"
    "FunctionGraph C = FunctionGraph C'" "replace C = replace C'"
    "MergeOptimizer_optimize C = MergeOptimizer_optimize C'"
  shows "is_same_graph_with_merge C = is_same_graph_with_merge C'"
  by (intro ext)
     (simp add: is_same_graph_with_merge_def merged_graph_def assms
        replace_all_cong [OF assms(4)])

lemma is_same_graph_unfold:
  assumes "is_same_graph_with_merge C var1 var2 (Some (givens_dict givens)) h = (Inr rval1, h1)"
  shows "is_same_graph C var1 var2 givens h =
     (case in_lists C h1 var1 var2 (givens_dict givens) of
        Inl e \<Rightarrow> (Inl e, h1)
      | Inr None \<Rightarrow> (Inr rval1, h1)
      | Inr (Some (in_xs, in_ys)) \<Rightarrow>
          (case equal_computations C h1 [var1] [var2] in_xs in_ys of
             Inl e \<Rightarrow> (Inl e, h1)
           | Inr rval2 \<Rightarrow> if rval2 = rval1 then (Inr rval1, h1) else (Inl AssertionError, h1)))"
  using assms
  by (simp add: is_same_graph_def seq_def reading_def split: sum.splits option.splits prod.splits)

lemma is_same_graph_merge_error:
  assumes "is_same_graph_with_merge C var1 var2 (Some (givens_dict givens)) h = (Inl e, h1)"
  shows "is_same_graph C var1 var2 givens h = (Inl e, h1)"
  using assms by (simp add: is_same_graph_def seq_def)

section \<open>Runs of the checker on leaves\<close>

lemma copy_heap_fields [simp]:
  "var_owner (copy_heap h) (v + next_var h) = map_option (\<lambda>a. a + next_app h) (var_owner h v)"
  "var_data (copy_heap h) (v + next_var h) = var_data h v"
  "app_op (copy_heap h) (a + next_app h) = app_op h a"
  "app_inputs (copy_heap h) (a + next_app h) = map (\<lambda>v. v + next_var h) (app_inputs h a)"
  "app_outputs (copy_heap h) (a + next_app h) = map (\<lambda>v. v + next_var h) (app_outputs h a)"
  "next_var (copy_heap h) = next_var h + next_var h"
  "fgraphs (copy_heap h) = fgraphs h"
  by (simp_all add: copy_heap_def Let_def)

lemma walk_back_fixpoint:
  "remdups (vs @ producers h stop vs) = vs \<Longrightarrow> walk_back n h stop vs = vs"
  by (induction n) auto

lemma ancestors_step:
  assumes "0 < next_var h"
    and "remdups (remdups vs @ producers h stop (remdups vs)) = ws"
    and "remdups (ws @ producers h stop ws) = ws"
  shows "ancestors h stop vs = ws"
proof -
  from assms(1) obtain n where n: "next_var h = Suc n" by (cases "next_var h") auto
  from assms(2) walk_back_fixpoint [OF assms(3)] show ?thesis
    by (simp add: ancestors_def n)
qed

lemma producers_leaves:
  "\<forall>v \<in> set vs. v \<in> set stop \<or> var_owner h v = None \<Longrightarrow> producers h stop vs = []"
  by (induction vs) (auto simp: producers_def)

lemma ancestors_leaves:
  assumes "\<forall>v \<in> set vs. v \<in> set stop \<or> var_owner h v = None"
  shows "ancestors h stop vs = remdups vs"
proof -
  from assms have "producers h stop (remdups vs) = []"
    by (intro producers_leaves) simp
  then have "remdups (remdups vs @ producers h stop (remdups vs)) = remdups vs"
    by simp
  then show ?thesis
    unfolding ancestors_def by (rule walk_back_fixpoint)
qed

lemma graph_nodes_leaves:
  "\<forall>v \<in> set vs. var_owner h v = None \<Longrightarrow> graph_nodes h vs = []"
  by (induction vs) (auto simp: graph_nodes_def)

lemma build_fgraph_variables:
  "set (fg_variables (build_fgraph h ins outs nodes)) =
     set ins \<union> set outs \<union> (\<Union>a \<in> set nodes. set (app_inputs h a) \<union> set (app_outputs h a))"
  by (auto simp: build_fgraph_def Let_def)

lemma private_graph_fields [simp]:
  "var_owner (private_graph var1 var2 h) = var_owner (copy_heap h)"
  "var_data (private_graph var1 var2 h) = var_data (copy_heap h)"
  "app_op (private_graph var1 var2 h) = app_op (copy_heap h)"
  "app_inputs (private_graph var1 var2 h) = app_inputs (copy_heap h)"
  "app_outputs (private_graph var1 var2 h) = app_outputs (copy_heap h)"
  "next_var (private_graph var1 var2 h) = next_var h + next_var h"
  by (simp_all add: private_graph_def FunctionGraph_model_heap)

lemma private_graph_leaves:
  assumes "x \<noteq> y" and "var_owner h x = None" and "var_owner h y = None"
  shows "fgraphs (private_graph x y h) (next_fg h) =
           build_fgraph (copy_heap h) [x + next_var h, y + next_var h]
              [x + next_var h, y + next_var h] []"
proof -
  let ?h1 = "copy_heap h"
  let ?vs = "[x + next_var h, y + next_var h]"
  from assms have l: "\<forall>v \<in> set ?vs. v \<in> set stop \<or> var_owner ?h1 v = None" for stop
    by simp
  from assms(1) have a: "ancestors ?h1 stop ?vs = ?vs" for stop
    by (simp add: ancestors_leaves [OF l])
  from assms have f: "filter (\<lambda>v. var_owner ?h1 v = None) ?vs = ?vs" by simp
  from assms have g: "graph_nodes ?h1 ?vs = []" by (simp add: graph_nodes_leaves)
  from assms show ?thesis
    by (simp add: private_graph_def FunctionGraph_model_heap a g)
qed

lemma merge_nodes_no_nodes:
  "fg_apply_nodes (fgraphs h r) = [] \<Longrightarrow> merge_nodes r h = h"
  by (subst merge_nodes.simps) simp

lemma is_same_graph_with_merge_model:
  "is_same_graph_with_merge (model fuel) var1 var2 givens h =
     (case replace_all (model fuel) (next_fg h)
             (copied_givens h (case givens of None \<Rightarrow> [] | Some g \<Rightarrow> g))
             (private_graph var1 var2 h) of
        (Inl e, h3) \<Rightarrow> (Inl e, h3)
      | (Inr u, h3) \<Rightarrow>
          (compare_outputs (merge_nodes (next_fg h) h3) (next_fg h)
             (copied_givens h (case givens of None \<Rightarrow> [] | Some g \<Rightarrow> g)),
           merge_nodes (next_fg h) h3))"
  by (simp add: is_same_graph_with_merge_def seq_def merged_graph_model reading_def
        split: prod.splits sum.splits)

text \<open>Two distinct leaves, compared under the substitution of the first by \<open>new\<close>, which
  is one of the two.\<close>

lemma leaves_replace:
  assumes "x \<noteq> y" and "var_owner h x = None" and "var_owner h y = None"
    and "new = x \<or> new = y"
  shows "is_same_graph_with_merge (model fuel) x y (Some [(x, new)]) h =
           (Inr (new = y),
            rewire (\<lambda>u. if u = x + next_var h then new + next_var h else u) (next_fg h) []
              (private_graph x y h))"
    and "merged_graph (model fuel) x y (Some [(x, new)]) h =
           (Inr (next_fg h, [(x + next_var h, new + next_var h)]),
            rewire (\<lambda>u. if u = x + next_var h then new + next_var h else u) (next_fg h) []
              (private_graph x y h))"
    and "fg_outputs (fgraphs
            (rewire (\<lambda>u. if u = x + next_var h then new + next_var h else u) (next_fg h) []
              (private_graph x y h)) (next_fg h)) = [new + next_var h, y + next_var h]"
    and "var_owner
            (rewire (\<lambda>u. if u = x + next_var h then new + next_var h else u) (next_fg h) []
              (private_graph x y h)) (new + next_var h) = None"
    and "var_owner
            (rewire (\<lambda>u. if u = x + next_var h then new + next_var h else u) (next_fg h) []
              (private_graph x y h)) (y + next_var h) = None"
proof -
  let ?V = "next_var h" and ?F = "next_fg h"
  let ?hp = "private_graph x y h"
  let ?\<sigma> = "\<lambda>u. if u = x + ?V then new + ?V else u"
  note fg = private_graph_leaves [OF assms(1-3)]
  from assms have lf: "var_owner (copy_heap h) (new + ?V) = None" by auto
  have tracked: "x + ?V \<in> set (fg_variables (fgraphs ?hp ?F))"
    by (simp add: fg build_fgraph_variables)
  from lf have "ancestors ?hp (fg_inputs (fgraphs ?hp ?F)) [new + ?V] = [new + ?V]"
    by (simp add: ancestors_leaves)
  with lf have nodes: "remdups (fg_apply_nodes (fgraphs ?hp ?F)
      @ graph_nodes ?hp (ancestors ?hp (fg_inputs (fgraphs ?hp ?F)) [new + ?V])) = []"
    by (simp add: fg graph_nodes_leaves)
  from tracked nodes have rep: "replace_model ?F (x + ?V) (new + ?V) ?hp
      = (Inr (), rewire ?\<sigma> ?F [] ?hp)"
    by (simp add: replace_model_def Let_def)
  let ?h3 = "rewire ?\<sigma> ?F [] ?hp"
  have m: "merge_nodes ?F ?h3 = ?h3"
    by (rule merge_nodes_no_nodes) simp
  from assms have outs: "fg_outputs (fgraphs ?h3 ?F) = [new + ?V, y + ?V]"
    by (simp add: fg)
  from assms lf have cmp: "compare_outputs ?h3 ?F [(x + ?V, new + ?V)] = Inr (new = y)"
    unfolding compare_outputs_def outs by (auto simp: givens_get_def Let_def)
  show "is_same_graph_with_merge (model fuel) x y (Some [(x, new)]) h = (Inr (new = y), ?h3)"
    by (simp add: is_same_graph_with_merge_model copied_givens_def seq_def rep m cmp)
  show "merged_graph (model fuel) x y (Some [(x, new)]) h =
          (Inr (?F, [(x + ?V, new + ?V)]), ?h3)"
    by (simp add: merged_graph_model copied_givens_def seq_def rep m)
  from outs show "fg_outputs (fgraphs ?h3 ?F) = [new + ?V, y + ?V]" .
  from lf show "var_owner ?h3 (new + ?V) = None" by simp
  from assms show "var_owner ?h3 (y + ?V) = None" by simp
qed

lemma is_same_graph_with_merge_unchanged:
  "unchanged h (snd (is_same_graph_with_merge (model fuel) var1 var2 givens h))"
  using merged_graph_isolated [of h fuel var1 var2 givens]
  by (simp add: is_same_graph_with_merge_heap isolated_def)

lemma leaf_reach:
  assumes "var_owner h x = None"
  shows "graph_inputs_model h [x] = Inr [x]" and "vars_between_model h [x] [x] = Inr [x]"
  using assms by (simp_all add: graph_inputs_model_def vars_between_model_def ancestors_leaves)

lemma leaves_is_same_graph:
  assumes "x \<noteq> y" and "var_owner h x = None" and "var_owner h y = None"
    and "x < next_var h" and "y < next_var h" and "new = x \<or> new = y"
  shows "fst (is_same_graph (model (Suc m)) x y (GivensDict [(x, new)]) h) = Inr (new = y)"
proof -
  let ?C = "model (Suc m)"
  obtain h1 where m: "is_same_graph_with_merge ?C x y (Some (givens_dict (GivensDict [(x, new)]))) h
      = (Inr (new = y), h1)"
    using leaves_replace(1) [OF assms(1-3,6)] by (simp add: givens_dict_def)
  from is_same_graph_with_merge_unchanged [of h "Suc m" x y "Some [(x, new)]"] m
  have u: "unchanged h h1" by (simp add: givens_dict_def)
  note d = unchangedD [OF u]
  from d(1) [OF assms(4)] assms(2) have lx: "var_owner h1 x = None" by simp
  from d(1) [OF assms(5)] assms(3) have ly: "var_owner h1 y = None" by simp
  have il: "in_lists ?C h1 x y [(x, new)] =
      (if new = y then Inr (Some (Some [x], Some [y])) else Inr None)"
    using assms(1,6) by (auto simp: in_lists_def leaf_reach [OF lx] leaf_reach [OF ly])
  have ec: "equal_computations ?C h1 [x] [y] (Some [x]) (Some [y]) = Inr True"
    by (simp add: equal_computations_model_def same_structure_assumed)
  from is_same_graph_unfold [OF m] il ec show ?thesis
    by (simp add: givens_dict_def)
qed

section \<open>Runs of the checker on the graphs \<open>x + 1\<close> and \<open>y + 1\<close>\<close>

lemma plus_one_shape_distinct:
  assumes "plus_one_shape h x y c1 c2 n1 n2 v1 v2"
  shows "v1 \<noteq> v2" and "n1 \<noteq> n2"
    and "v1 \<notin> set [x, c1, y, c2]" and "v2 \<notin> set [x, c1, y, c2]"
    and "x \<noteq> c1" and "x \<noteq> c2" and "y \<noteq> c1" and "y \<noteq> c2" and "x \<noteq> y"
  using assms by (auto simp: plus_one_shape_def)

lemma plus_one_shape_copy:
  assumes "plus_one_shape h x y c1 c2 n1 n2 v1 v2"
  shows "plus_one_shape (copy_heap h) (x + next_var h) (y + next_var h)
           (c1 + next_var h) (c2 + next_var h)
           (n1 + next_app h) (n2 + next_app h) (v1 + next_var h) (v2 + next_var h)"
  using assms by (simp add: plus_one_shape_def)


lemma plus_one_shape_producers:
  assumes s: "plus_one_shape h x y c1 c2 n1 n2 v1 v2"
  shows "v1 \<notin> set stop \<Longrightarrow> producers h stop (v1 # vs) = [x, c1] @ producers h stop vs"
    and "v2 \<notin> set stop \<Longrightarrow> producers h stop (v2 # vs) = [y, c2] @ producers h stop vs"
    and "producers h stop (x # vs) = producers h stop vs"
    and "producers h stop (y # vs) = producers h stop vs"
    and "producers h stop (c1 # vs) = producers h stop vs"
    and "producers h stop (c2 # vs) = producers h stop vs"
    and "producers h stop [] = []"
  using s by (simp_all add: plus_one_shape_def producers_def)

lemma remdups_two:
  "a \<noteq> b \<Longrightarrow> a \<notin> set l \<Longrightarrow> b \<notin> set l \<Longrightarrow> remdups (a # b # l) = a # b # remdups l"
  by simp

lemma remdups_append_subset: "set xs \<subseteq> set ys \<Longrightarrow> remdups (xs @ ys) = remdups ys"
  by (induction xs) auto

lemma graph_nodes_Cons:
  "var_owner h v = Some a \<Longrightarrow> graph_nodes h (v # vs) = remdups (a # graph_nodes h vs)"
  by (auto simp: graph_nodes_def distinct_remdups_id)

lemma plus_one_reach_both:
  assumes s: "plus_one_shape h x y c1 c2 n1 n2 v1 v2" and pos: "0 < next_var h"
    and stop: "v1 \<notin> set stop" "v2 \<notin> set stop"
  shows "ancestors h stop [v1, v2] = v1 # v2 # remdups [x, c1, y, c2]"
proof -
  define l where "l = [x, c1, y, c2]"
  note p = plus_one_shape_producers [OF s]
  note d = plus_one_shape_distinct [OF s]
  from d(3,4) have n: "v1 \<notin> set l" "v2 \<notin> set l" by (simp_all add: l_def)
  from s have "\<forall>v \<in> set (remdups l). v \<in> set stop \<or> var_owner h v = None"
    by (simp add: l_def plus_one_shape_def)
  then have pl: "producers h stop (remdups l) = []" by (rule producers_leaves)
  from stop have p2: "producers h stop (v1 # v2 # vs) = l @ producers h stop vs" for vs
    by (simp add: p l_def)
  have "ancestors h stop [v1, v2] = v1 # v2 # remdups l"
  proof (rule ancestors_step [OF pos])
    from d(1) have r: "remdups [v1, v2] = [v1, v2]" by simp
    from remdups_two [OF d(1) n]
    show "remdups (remdups [v1, v2] @ producers h stop (remdups [v1, v2])) = v1 # v2 # remdups l"
      unfolding r p2 by (simp add: p)
    from n have m: "v1 \<notin> set (remdups l @ l)" "v2 \<notin> set (remdups l @ l)" by simp_all
    have "remdups (remdups l @ l) = remdups l" by (rule remdups_append_subset) simp
    with remdups_two [OF d(1) m]
    show "remdups ((v1 # v2 # remdups l) @ producers h stop (v1 # v2 # remdups l))
        = v1 # v2 # remdups l"
      unfolding p2 pl by simp
  qed
  then show ?thesis by (simp only: l_def)
qed



lemma plus_one_private_graph:
  assumes g: "plus_one_graphs h x y c1 c2 n1 n2 v1 v2"
  shows "fgraphs (private_graph v1 v2 h) (next_fg h) =
           build_fgraph (copy_heap h)
             (remdups [x + next_var h, c1 + next_var h, y + next_var h, c2 + next_var h])
             [v1 + next_var h, v2 + next_var h]
             [n1 + next_app h, n2 + next_app h]"
proof -
  let ?V = "next_var h" and ?A = "next_app h"
  let ?h1 = "copy_heap h"
  define ls where "ls = remdups [x + ?V, c1 + ?V, y + ?V, c2 + ?V]"
  from g have s: "plus_one_shape h x y c1 c2 n1 n2 v1 v2" and b: "v1 < next_var h"
    by (simp_all add: plus_one_graphs_def)
  note s1 = plus_one_shape_copy [OF s]
  from b have pos: "0 < next_var ?h1" by simp
  note d = plus_one_shape_distinct [OF s1]
  from s1 have o: "var_owner ?h1 (v1 + ?V) = Some (n1 + ?A)"
      "var_owner ?h1 (v2 + ?V) = Some (n2 + ?A)"
    by (simp_all add: plus_one_shape_def)
  from s1 have lf: "\<forall>v \<in> set ls. var_owner ?h1 v = None"
    unfolding ls_def set_remdups by (simp add: plus_one_shape_def)
  from d(3,4) have nl: "v1 + ?V \<notin> set ls" "v2 + ?V \<notin> set ls"
    unfolding ls_def set_remdups by simp_all
  have a0: "ancestors ?h1 [] [v1 + ?V, v2 + ?V] = (v1 + ?V) # (v2 + ?V) # ls"
    unfolding ls_def by (rule plus_one_reach_both [OF s1 pos]) simp_all
  from lf have "filter (\<lambda>v. var_owner ?h1 v = None) ls = ls" by simp
  with o have f: "filter (\<lambda>v. var_owner ?h1 v = None) ((v1 + ?V) # (v2 + ?V) # ls) = ls"
    by simp
  have a1: "ancestors ?h1 ls [v1 + ?V, v2 + ?V] = (v1 + ?V) # (v2 + ?V) # ls"
    unfolding ls_def by (rule plus_one_reach_both [OF s1 pos]) (use nl in \<open>simp_all add: ls_def\<close>)
  from lf have "graph_nodes ?h1 ls = []" by (rule graph_nodes_leaves)
  with d(2) have n: "graph_nodes ?h1 ((v1 + ?V) # (v2 + ?V) # ls) = [n1 + ?A, n2 + ?A]"
    by (simp add: graph_nodes_Cons [OF o(1)] graph_nodes_Cons [OF o(2)])
  have "fgraphs (private_graph v1 v2 h) (next_fg h) =
      build_fgraph ?h1 ls [v1 + ?V, v2 + ?V] [n1 + ?A, n2 + ?A]"
    unfolding private_graph_def FunctionGraph_model_heap a0 f a1 n by simp
  then show ?thesis by (simp only: ls_def)
qed

lemma find_duplicate_pair:
  "same_computation h a b \<Longrightarrow> find_duplicate h [a, b] = Some (a, b)"
  by simp

lemma merge_nodes_step:
  "find_duplicate h (fg_apply_nodes (fgraphs h r)) = Some (a, b)
   \<Longrightarrow> merge_nodes r h = merge_nodes r (unify r a b h)"
  by (subst merge_nodes.simps) simp

lemma merge_nodes_done:
  "find_duplicate h (fg_apply_nodes (fgraphs h r)) = None \<Longrightarrow> merge_nodes r h = h"
  by (subst merge_nodes.simps) simp


lemma plus_one_merge_given:
  assumes g: "plus_one_graphs h x y c1 c2 n1 n2 v1 v2"
  shows "fst (is_same_graph_with_merge (model fuel) v1 v2 (Some [(x, y)]) h) = Inr True"
    and "merged_graph (model fuel) v1 v2 (Some [(x, y)]) h =
           (Inr (next_fg h, [(x + next_var h, y + next_var h)]),
            snd (merged_graph (model fuel) v1 v2 (Some [(x, y)]) h))"
    and "fg_outputs (fgraphs (snd (merged_graph (model fuel) v1 v2 (Some [(x, y)]) h)) (next_fg h))
           = [v1 + next_var h, v1 + next_var h]"
    and "var_owner (snd (merged_graph (model fuel) v1 v2 (Some [(x, y)]) h)) (v1 + next_var h)
           = Some (n1 + next_app h)"
proof -
  let ?V = "next_var h" and ?A = "next_app h" and ?F = "next_fg h"
  let ?hp = "private_graph v1 v2 h"
  let ?\<sigma> = "\<lambda>u. if u = x + ?V then y + ?V else u"
  from g have s: "plus_one_shape h x y c1 c2 n1 n2 v1 v2"
    by (simp add: plus_one_graphs_def)
  note d = plus_one_shape_distinct [OF s]
  note s1 = plus_one_shape_copy [OF s]
  note fg = plus_one_private_graph [OF g]
  have tracked: "x + ?V \<in> set (fg_variables (fgraphs ?hp ?F))"
    by (simp add: fg build_fgraph_variables)
  from s have ly: "var_owner ?hp (y + ?V) = None" by (simp add: plus_one_shape_def)
  then have "ancestors ?hp (fg_inputs (fgraphs ?hp ?F)) [y + ?V] = [y + ?V]"
    by (simp add: ancestors_leaves)
  with ly d(2) have nodes: "remdups (fg_apply_nodes (fgraphs ?hp ?F)
      @ graph_nodes ?hp (ancestors ?hp (fg_inputs (fgraphs ?hp ?F)) [y + ?V]))
      = [n1 + ?A, n2 + ?A]"
    by (simp add: fg graph_nodes_leaves)
  define h3 where "h3 = rewire ?\<sigma> ?F [n1 + ?A, n2 + ?A] ?hp"
  from tracked nodes have rep: "replace_model ?F (x + ?V) (y + ?V) ?hp = (Inr (), h3)"
    by (simp add: replace_model_def Let_def h3_def)
  have h3: "fg_apply_nodes (fgraphs h3 ?F) = [n1 + ?A, n2 + ?A]"
    "fg_outputs (fgraphs h3 ?F) = [v1 + ?V, v2 + ?V]"
    "app_inputs h3 (n1 + ?A) = [y + ?V, c1 + ?V]"
    "app_inputs h3 (n2 + ?A) = [y + ?V, c2 + ?V]"
    "app_outputs h3 (n1 + ?A) = [v1 + ?V]"
    "app_outputs h3 (n2 + ?A) = [v2 + ?V]"
    "app_op h3 (n1 + ?A) = app_op h3 (n2 + ?A)"
    "var_owner h3 (v1 + ?V) = Some (n1 + ?A)"
    "var_data h3 (c1 + ?V) = Some 1"
    "var_data h3 (c2 + ?V) = Some 1"
    using s d by (simp_all add: h3_def fg plus_one_shape_def)
  from d(2) have "same_computation h3 (n1 + ?A) (n2 + ?A)"
    by (simp add: same_computation_def same_operand_def h3)
  then have dup: "find_duplicate h3 (fg_apply_nodes (fgraphs h3 ?F)) = Some (n1 + ?A, n2 + ?A)"
    by (simp add: h3(1) del: find_duplicate.simps add: find_duplicate_pair)
  define h4 where "h4 = unify ?F (n1 + ?A) (n2 + ?A) h3"
  from d(1,2) have h4: "fg_apply_nodes (fgraphs h4 ?F) = [n1 + ?A]"
    "fg_outputs (fgraphs h4 ?F) = [v1 + ?V, v1 + ?V]"
    "var_owner h4 (v1 + ?V) = Some (n1 + ?A)"
    by (simp_all add: h4_def unify_def h3)
  have "find_duplicate h4 (fg_apply_nodes (fgraphs h4 ?F)) = None"
    by (simp add: h4(1))
  then have "merge_nodes ?F h4 = h4" by (rule merge_nodes_done)
  with merge_nodes_step [OF dup] have m: "merge_nodes ?F h3 = h4"
    by (simp add: h4_def)
  from d(3) have "compare_outputs h4 ?F [(x + ?V, y + ?V)] = Inr True"
    by (simp add: compare_outputs_def h4 givens_get_def Let_def)
  then show "fst (is_same_graph_with_merge (model fuel) v1 v2 (Some [(x, y)]) h) = Inr True"
    by (simp add: is_same_graph_with_merge_model copied_givens_def seq_def rep m)
  have mg: "merged_graph (model fuel) v1 v2 (Some [(x, y)]) h =
      (Inr (?F, [(x + ?V, y + ?V)]), h4)"
    by (simp add: merged_graph_model copied_givens_def seq_def rep m)
  then show "merged_graph (model fuel) v1 v2 (Some [(x, y)]) h =
           (Inr (?F, [(x + ?V, y + ?V)]),
            snd (merged_graph (model fuel) v1 v2 (Some [(x, y)]) h))"
    by simp
  from mg h4(2) show "fg_outputs (fgraphs (snd (merged_graph (model fuel) v1 v2
        (Some [(x, y)]) h)) ?F) = [v1 + ?V, v1 + ?V]"
    by simp
  from mg h4(3) show "var_owner (snd (merged_graph (model fuel) v1 v2 (Some [(x, y)]) h))
        (v1 + ?V) = Some (n1 + ?A)"
    by simp
qed

lemma output_index_single [simp]: "app_outputs h a = [v] \<Longrightarrow> output_index h a v = 0"
  by (simp add: output_index_def)




lemma sum_heap_plus_one: "plus_one_graphs sum_heap 0 1 2 2 0 1 3 4"
  by (simp add: plus_one_graphs_def plus_one_shape_def sum_heap_def)


lemma unchanged_snapshot: "unchanged h h' \<Longrightarrow> snapshot h h' = snapshot h h"
  by (simp add: snapshot_def unchangedD)

lemma sum_heap_fields:
  "var_owner sum_heap 0 = None" "var_owner sum_heap 1 = None" "var_owner sum_heap 2 = None"
  "var_owner sum_heap 3 = Some 0" "var_owner sum_heap 4 = Some 1"
  "next_var sum_heap = 5" "next_app sum_heap = 2" "next_fg sum_heap = 0"
  by (simp_all add: sum_heap_def)

lemma sum_heap_graph_ok: "graph_ok 2 sum_heap 3"
  by (simp add: numeral_2_eq_2 sum_heap_def)

section \<open>Linear chains\<close>

lemma is_output_only_cases:
  "is_output_only r \<Longrightarrow> \<exists>i. r = Some [(ClientOutput, i)]"
  by (induction r rule: is_output_only.induct) auto

lemma get_clients_at_depth_nonpos:
  "depth \<le> 0 \<Longrightarrow>
   get_clients_at_depth fgraph h node depth = (map (var_owner h) (app_outputs h node), None)"
proof -
  assume d: "depth \<le> 0"
  have chain: "gen_chain (map (\<lambda>out. ([f out], None)) outs) = (map f outs, None)"
    for f :: "variable_ref \<Rightarrow> apply_ref option" and outs
    by (induction outs) auto
  from d show ?thesis
    by (subst get_clients_at_depth.simps) (simp add: chain)
qed

lemma linear_chain_traversal:
  "linear_chain fg h ns \<Longrightarrow> 0 \<le> d \<Longrightarrow>
   get_clients_at_depth fg h (hd ns) d =
     (if nat d < length ns then ([Some (ns ! nat d)], None) else ([], None))"
proof (induction ns arbitrary: d)
  case Nil
  then show ?case by simp
next
  case (Cons n ns)
  show ?case
  proof (cases ns)
    case Nil
    with Cons.prems obtain out i where
      o: "app_outputs h n = [out]" "var_owner h out = Some n"
         "fg_clients fg out = Some [(ClientOutput, i)]"
      by (auto simp: single_io_def split: list.splits dest: is_output_only_cases)
    show ?thesis
    proof (cases "d = 0")
      case True
      with o Nil show ?thesis by (simp add: get_clients_at_depth_nonpos)
    next
      case False
      with Cons.prems have "d > 0" by simp
      with o Nil show ?thesis
        by (subst get_clients_at_depth.simps) simp
    qed
  next
    case (Cons m ms)
    with Cons.prems obtain out where
      o: "app_outputs h n = [out]" "var_owner h out = Some n"
         "fg_clients fg out = Some [(ClientNode m, 0)]"
      and rest: "linear_chain fg h (m # ms)"
      by (auto simp: single_io_def split: list.splits)
    show ?thesis
    proof (cases "d = 0")
      case True
      with o show ?thesis by (simp add: get_clients_at_depth_nonpos)
    next
      case False
      with Cons.prems have pos: "d > 0" by simp
      then have d1: "0 \<le> d - 1" by simp
      have ih: "get_clients_at_depth fg h m (d - 1) =
          (if nat (d - 1) < length ns then ([Some (ns ! nat (d - 1))], None) else ([], None))"
        using Cons.IH [OF _ d1] rest Cons by simp
      from pos have nd: "nat d = Suc (nat (d - 1))" by simp
      from pos o show ?thesis
        by (subst get_clients_at_depth.simps) (simp add: ih nd)
    qed
  qed
qed

lemma linear_chain_drop:
  "linear_chain fg h cs \<Longrightarrow> i < length cs \<Longrightarrow> linear_chain fg h (drop i cs)"
proof (induction i arbitrary: cs)
  case 0
  then show ?case by simp
next
  case (Suc i)
  then obtain n m ms where cs: "cs = n # m # ms"
    by (cases cs; cases "tl cs") auto
  with Suc.prems have "linear_chain fg h (m # ms)"
    by (auto split: list.splits)
  with Suc.IH [of "m # ms"] Suc.prems cs show ?case by simp
qed

lemma chain_example: "linear_chain chain_fgraph chain_heap [0, 1, 2]"
  by (simp add: chain_heap_def chain_fgraph_def single_io_def)

section \<open>Properties of the traversal\<close>

text \<open>
  C7. On a linear chain of single-input, single-output nodes whose last output is the
  designated graph output, \<open>get_clients_at_depth\<close> started at the node at position \<open>i\<close>
  with a depth \<open>d \<ge> 0\<close> yields exactly the node \<open>d\<close> steps downstream while that node
  exists (\<open>d\<close> at most the remaining chain length); at a greater depth the
  \<open>"output"\<close> client is skipped and nothing is yielded, and no exception is raised.
\<close>

theorem get_clients_at_depth_linear_chain:
  assumes "linear_chain fg h cs" and "i < length cs" and "0 \<le> d"
  shows "(i + nat d < length cs \<longrightarrow>
            get_clients_at_depth fg h (cs ! i) d = ([Some (cs ! (i + nat d))], None))
       \<and> (length cs \<le> i + nat d \<longrightarrow>
            get_clients_at_depth fg h (cs ! i) d = ([], None))"
proof -
  from assms have c: "linear_chain fg h (drop i cs)"
    by (simp add: linear_chain_drop)
  from assms have hd: "hd (drop i cs) = cs ! i"
    by (simp add: hd_drop_conv_nth)
  from linear_chain_traversal [OF c assms(3)] hd assms(2) show ?thesis
    by (auto simp: add.commute)
qed

theorem get_clients_at_depth_linear_chain_witness:
  "linear_chain chain_fgraph chain_heap [0, 1, 2] \<and> (1::nat) < length [0::nat, 1, 2]
   \<and> (0::int) \<le> 1
   \<and> get_clients_at_depth chain_fgraph chain_heap 1 1 = ([Some 2], None)
   \<and> get_clients_at_depth chain_fgraph chain_heap 1 2 = ([], None)"
proof -
  have a: "get_clients_at_depth chain_fgraph chain_heap 1 1 = ([Some 2], None)"
    using get_clients_at_depth_linear_chain [OF chain_example, of 1 1] by simp
  have b: "get_clients_at_depth chain_fgraph chain_heap 1 2 = ([], None)"
    using get_clients_at_depth_linear_chain [OF chain_example, of 1 2] by simp
  from chain_example a b show ?thesis
    by (intro conjI; (assumption | simp))
qed

text \<open>
  C8 (as the code has it). A negative depth is not rejected: \<open>get_clients_at_depth\<close>
  has no check on \<open>depth\<close>, and every depth that is not positive takes the branch of
  depth zero.  At a negative depth the run raises nothing and yields the owner of each
  output Variable of the node.
\<close>

theorem get_clients_at_depth_negative_not_rejected:
  "depth < 0 \<Longrightarrow>
   snd (get_clients_at_depth fgraph h node depth) = None \<and>
   fst (get_clients_at_depth fgraph h node depth) = map (var_owner h) (app_outputs h node)"
  by (simp add: get_clients_at_depth_nonpos)

theorem get_clients_at_depth_negative_not_rejected_witness:
  "(-3::int) < 0 \<and>
   snd (get_clients_at_depth chain_fgraph chain_heap 1 (-3)) = None \<and>
   fst (get_clients_at_depth chain_fgraph chain_heap 1 (-3)) = [Some 1]"
  using get_clients_at_depth_negative_not_rejected [of "-3" chain_fgraph chain_heap 1]
  by (simp add: chain_heap_def)

text \<open>
  C8 (as the specification states it) fails: at depth \<open>-1\<close> on the chain example the
  call does not fail and a node is yielded.
\<close>

theorem get_clients_at_depth_negative_counterexample:
  "get_clients_at_depth chain_fgraph chain_heap 1 (-1) = ([Some 1], None)"
  by (simp add: get_clients_at_depth_nonpos chain_heap_def)

text \<open>
  C9. For every depth \<open>\<le> 0\<close>, negative ones included, the run is the run at depth zero:
  one yield per output Variable of the node, each the owner of that Variable (the node
  itself when the outputs record it as their owner), no exception, and no client list
  is read: the run is the same for every \<open>FunctionGraph\<close>.
\<close>

theorem get_clients_at_depth_nonpositive:
  assumes "depth \<le> 0"
  shows "get_clients_at_depth fgraph h node depth =
           (map (var_owner h) (app_outputs h node), None)
       \<and> get_clients_at_depth fgraph h node depth = get_clients_at_depth fgraph' h node 0
       \<and> ((\<forall>out \<in> set (app_outputs h node). var_owner h out = Some node) \<longrightarrow>
            fst (get_clients_at_depth fgraph h node depth) =
              replicate (length (app_outputs h node)) (Some node))"
proof -
  have "map (var_owner h) (app_outputs h node) =
          replicate (length (app_outputs h node)) (Some node)"
    if "\<forall>out \<in> set (app_outputs h node). var_owner h out = Some node"
    using that by (simp add: map_replicate_const [symmetric] cong: map_cong)
  with assms show ?thesis
    by (simp add: get_clients_at_depth_nonpos)
qed

theorem get_clients_at_depth_nonpositive_witness:
  "(-2::int) \<le> 0
   \<and> get_clients_at_depth chain_fgraph chain_heap 2 (-2) = ([Some 2], None)
   \<and> get_clients_at_depth chain_fgraph chain_heap 2 (-2) =
       get_clients_at_depth (chain_fgraph\<lparr>fg_clients := Map.empty\<rparr>) chain_heap 2 0
   \<and> app_outputs chain_heap 2 = [3] \<and> var_owner chain_heap 3 = Some 2
   \<and> fst (get_clients_at_depth chain_fgraph chain_heap 2 (-2)) = replicate 1 (Some 2)"
proof -
  have o: "app_outputs chain_heap 2 = [3]" "var_owner chain_heap 3 = Some 2"
    by (simp_all add: chain_heap_def)
  have le: "(-2::int) \<le> 0" by simp
  from get_clients_at_depth_nonpositive
         [OF le, of chain_fgraph chain_heap 2 "chain_fgraph\<lparr>fg_clients := Map.empty\<rparr>"]
  show ?thesis
    by (auto simp: o)
qed

section \<open>Runs on the example heap\<close>

lemma contrary_merge:
  "is_same_graph_with_merge contrary = is_same_graph_with_merge (model fuel)"
  by (rule is_same_graph_with_merge_cong) (simp_all add: contrary_def)

lemma sum_heap_leaves: "(0::nat) \<noteq> 1" "(0::nat) = 0 \<or> (0::nat) = 1" "(1::nat) = 0 \<or> (1::nat) = 1"
  by simp_all

lemma sum_heap_leaf_run:
  assumes "new = 0 \<or> new = (1::nat)"
  shows "is_same_graph_with_merge (model 1) 0 1 (Some (givens_dict (GivensDict [(0, new)]))) sum_heap
           = (Inr (new = 1),
              snd (is_same_graph_with_merge (model 1) 0 1 (Some [(0, new)]) sum_heap))"
    and "graph_inputs (model 1)
           (snd (is_same_graph_with_merge (model 1) 0 1 (Some [(0, new)]) sum_heap)) [0] = Inr [0]"
    and "vars_between (model 1)
           (snd (is_same_graph_with_merge (model 1) 0 1 (Some [(0, new)]) sum_heap)) [0] [0]
           = Inr [0]"
    and "graph_inputs (model 1)
           (snd (is_same_graph_with_merge (model 1) 0 1 (Some [(0, new)]) sum_heap)) [1] = Inr [1]"
    and "vars_between (model 1)
           (snd (is_same_graph_with_merge (model 1) 0 1 (Some [(0, new)]) sum_heap)) [1] [1]
           = Inr [1]"
proof -
  let ?H = "snd (is_same_graph_with_merge (model 1) 0 1 (Some [(0, new)]) sum_heap)"
  from leaves_replace(1) [OF sum_heap_leaves(1) sum_heap_fields(1,2) assms, of 1]
  show "is_same_graph_with_merge (model 1) 0 1 (Some (givens_dict (GivensDict [(0, new)])))
      sum_heap = (Inr (new = 1), ?H)"
    by (simp add: givens_dict_def)
  note d = unchangedD [OF is_same_graph_with_merge_unchanged [of sum_heap 1 0 1 "Some [(0, new)]"]]
  from d(1) [of 0] sum_heap_fields have l0: "var_owner ?H 0 = None" by simp
  from d(1) [of 1] sum_heap_fields have l1: "var_owner ?H 1 = None" by simp
  from leaf_reach [OF l0] show "graph_inputs (model 1) ?H [0] = Inr [0]"
    and "vars_between (model 1) ?H [0] [0] = Inr [0]" by simp_all
  from leaf_reach [OF l1] show "graph_inputs (model 1) ?H [1] = Inr [1]"
    and "vars_between (model 1) ?H [1] [1] = Inr [1]" by simp_all
qed

lemma FunctionGraph_model_leaf:
  assumes "var_owner h v = None"
  shows "FunctionGraph_model None [v] False h =
           (Inr (next_fg h),
            h\<lparr>fgraphs := (fgraphs h)(next_fg h := build_fgraph h [v] [v] []),
              next_fg := Suc (next_fg h)\<rparr>)"
proof -
  from assms have a: "ancestors h stop [v] = [v]" for stop
    by (simp add: ancestors_leaves)
  from assms have g: "graph_nodes h [v] = []" by (simp add: graph_nodes_leaves)
  from assms show ?thesis
    by (simp add: FunctionGraph_model_def Let_def a g)
qed

lemma leaf_graph_heap_built:
  "FunctionGraph_model None [0] False sum_heap = (Inr 0, leaf_graph_heap)"
  using FunctionGraph_model_leaf [OF sum_heap_fields(1)]
  by (simp add: leaf_graph_heap_def sum_heap_fields)

lemma leaf_graph_heap_fields:
  "fg_apply_nodes (fgraphs leaf_graph_heap 0) = []"
  "fg_outputs (fgraphs leaf_graph_heap 0) = [0]"
  by (simp_all add: leaf_graph_heap_def)

lemma leaf_graph_heap_merge: "MergeOptimizer_model 0 leaf_graph_heap = (Inr (), leaf_graph_heap)"
  by (simp add: MergeOptimizer_model_def merge_nodes_no_nodes leaf_graph_heap_fields)

lemma optdb_query_model_merge:
  "optdb_query_model [''merge''] kwargs h =
     (Inr \<lparr>truthy = True, optimize = MergeOptimizer_model\<rparr>, h)"
  by (simp add: optdb_query_model_def)

lemma leaf_graph_runs:
  "optimize_graph (model 0) (ArgFunctionGraph 0) [''merge'']
      (Some \<lparr>truthy = True, optimize = MergeOptimizer_model\<rparr>) True [] leaf_graph_heap
     = (Inr (ArgFunctionGraph 0), leaf_graph_heap)"
  "optimize_graph (model 0) (ArgVariable 0) [''merge''] None False [] sum_heap
     = (Inr (ArgVariable 0), leaf_graph_heap)"
  by (simp_all add: optimize_graph_def seq_def optdb_query_model_merge leaf_graph_heap_merge
        leaf_graph_heap_built leaf_graph_heap_fields)

lemma square_heap_fields:
  "fg_apply_nodes (fgraphs square_heap 0) = [0, 1, 2]"
  "fg_outputs (fgraphs square_heap 0) = [5]"
  "fg_inputs (fgraphs square_heap 0) = [0, 1, 2]"
  "app_inputs square_heap 0 = [0, 1]" "app_inputs square_heap 1 = [0, 2]"
  "app_inputs square_heap 2 = [3, 4]"
  "app_outputs square_heap 0 = [3]" "app_outputs square_heap 1 = [4]"
  "app_outputs square_heap 2 = [5]"
  "app_op square_heap 0 = 0" "app_op square_heap 1 = 0" "app_op square_heap 2 = 1"
  "var_data square_heap 1 = Some 1" "var_data square_heap 2 = Some 1"
  by (simp_all add: square_heap_def square_nodes_def)

lemma square_heap_duplicate:
  "find_duplicate square_heap (fg_apply_nodes (fgraphs square_heap 0)) = Some (0, 1)"
  using square_heap_fields by (simp add: same_computation_def same_operand_def)

lemma square_heap_unified:
  "fg_apply_nodes (fgraphs (unify 0 0 1 square_heap) 0) = [0, 2]"
  "fg_outputs (fgraphs (unify 0 0 1 square_heap) 0) = [5]"
  "app_inputs (unify 0 0 1 square_heap) 0 = [0, 1]"
  "app_inputs (unify 0 0 1 square_heap) 2 = [3, 3]"
  "app_op (unify 0 0 1 square_heap) 0 = 0" "app_op (unify 0 0 1 square_heap) 2 = 1"
  using square_heap_fields by (simp_all add: unify_def)

lemma square_heap_merge: "merge_nodes 0 square_heap = unify 0 0 1 square_heap"
proof -
  from square_heap_unified
  have "find_duplicate (unify 0 0 1 square_heap)
          (fg_apply_nodes (fgraphs (unify 0 0 1 square_heap) 0)) = None"
    by (simp add: same_computation_def)
  then have "merge_nodes 0 (unify 0 0 1 square_heap) = unify 0 0 1 square_heap"
    by (rule merge_nodes_done)
  with merge_nodes_step [OF square_heap_duplicate] show ?thesis by simp
qed

lemma square_heap_merged:
  "fg_apply_nodes (fgraphs (merge_nodes 0 square_heap) 0) = [0, 2]"
  "app_inputs (merge_nodes 0 square_heap) 2 = [3, 3]"
  using square_heap_unified by (simp_all add: square_heap_merge)

lemma square_heap_clients:
  "fg_clients (fgraphs square_heap 0) 3 = Some [(ClientNode 2, 0)]"
  "fg_clients (fgraphs square_heap 0) 4 = Some [(ClientNode 2, 1)]"
  by (simp_all add: square_heap_def square_nodes_def build_fgraph_def client_index_def)

lemma square_heap_merged_clients:
  "fg_clients (fgraphs (merge_nodes 0 square_heap) 0) 3
     = Some [(ClientNode 2, 0), (ClientNode 2, 1)]"
  "fg_clients (fgraphs (merge_nodes 0 square_heap) 0) 4 = None"
  using square_heap_fields
  by (simp_all add: square_heap_merge unify_def rewire_def build_fgraph_def client_index_def Let_def)

lemma FunctionGraph_model_leaf_clone:
  assumes "var_owner h v = None"
  shows "FunctionGraph_model None [v] True h =
           (Inr (next_fg h),
            (copy_heap h)\<lparr>fgraphs := (fgraphs h)(next_fg h :=
                 build_fgraph (copy_heap h) [v + next_var h] [v + next_var h] []),
              next_fg := Suc (next_fg h)\<rparr>)"
proof -
  from assms have l: "var_owner (copy_heap h) (v + next_var h) = None" by simp
  from l have a: "ancestors (copy_heap h) stop [v + next_var h] = [v + next_var h]" for stop
    by (simp add: ancestors_leaves)
  from l have g: "graph_nodes (copy_heap h) [v + next_var h] = []"
    by (simp add: graph_nodes_leaves)
  from l show ?thesis
    by (simp add: FunctionGraph_model_def Let_def a g)
qed

lemma square_runs:
  "optimize_graph (model 0) (ArgFunctionGraph 0) [''merge''] None clone [] square_heap
     = (Inr (ArgFunctionGraph 0), merge_nodes 0 square_heap)"
  "optimize_graph (model 0) (ArgFunctionGraph 0) [''merge''] (Some failing_pass) clone []
      square_heap = (Inl (OtherError 0), merge_nodes 0 square_heap)"
  by (simp_all add: optimize_graph_def seq_def optdb_query_model_merge MergeOptimizer_model_def
        failing_pass_def)

lemma cloned_leaf_runs:
  "optimize_graph (model 0) (ArgVariable 0) [''merge''] None True [] sum_heap
     = (Inr (ArgVariable 5), snd (FunctionGraph_model None [0] True sum_heap))"
  using FunctionGraph_model_leaf_clone [OF sum_heap_fields(1)] sum_heap_fields
  by (simp add: optimize_graph_def seq_def optdb_query_model_merge MergeOptimizer_model_def
        merge_nodes_no_nodes)

section \<open>Properties of the equivalence check and of the driver\<close>

text \<open>
  C1. For all collaborators: when \<open>is_same_graph\<close> returns a value, that value (and
  the heap) is what \<open>is_same_graph_with_merge\<close> returned; and when the structural
  comparator is called (the lists \<open>in_xs\<close>, \<open>in_ys\<close> were built) and its answer differs
  from the merge-based one, the call ends in \<open>AssertionError\<close> and returns no value.
\<close>

theorem is_same_graph_assertion:
  "(is_same_graph C var1 var2 givens h = (Inr b, h')
      \<longrightarrow> is_same_graph_with_merge C var1 var2 (Some (givens_dict givens)) h = (Inr b, h'))
 \<and> (is_same_graph_with_merge C var1 var2 (Some (givens_dict givens)) h = (Inr rval1, h1)
      \<and> in_lists C h1 var1 var2 (givens_dict givens) = Inr (Some (in_xs, in_ys))
      \<and> equal_computations C h1 [var1] [var2] in_xs in_ys = Inr rval2
      \<and> rval2 \<noteq> rval1
      \<longrightarrow> is_same_graph C var1 var2 givens h = (Inl AssertionError, h1))"
proof (intro conjI impI)
  assume r: "is_same_graph C var1 var2 givens h = (Inr b, h')"
  obtain res h1 where m: "is_same_graph_with_merge C var1 var2 (Some (givens_dict givens)) h
      = (res, h1)" by (cases "is_same_graph_with_merge C var1 var2 (Some (givens_dict givens)) h")
  show "is_same_graph_with_merge C var1 var2 (Some (givens_dict givens)) h = (Inr b, h')"
  proof (cases res)
    case (Inl e)
    with m r show ?thesis by (simp add: is_same_graph_merge_error)
  next
    case (Inr rval1)
    with m r show ?thesis
      by (simp add: is_same_graph_unfold split: sum.splits option.splits prod.splits if_splits)
  qed
next
  assume "is_same_graph_with_merge C var1 var2 (Some (givens_dict givens)) h = (Inr rval1, h1)
      \<and> in_lists C h1 var1 var2 (givens_dict givens) = Inr (Some (in_xs, in_ys))
      \<and> equal_computations C h1 [var1] [var2] in_xs in_ys = Inr rval2
      \<and> rval2 \<noteq> rval1"
  then show "is_same_graph C var1 var2 givens h = (Inl AssertionError, h1)"
    by (simp add: is_same_graph_unfold)
qed

theorem is_same_graph_assertion_witness:
  "is_same_graph (model 2) 3 3 GivensNone sum_heap
     = (Inr True, merge_nodes 0 (private_graph 3 3 sum_heap))
   \<and> is_same_graph_with_merge (model 2) 3 3 (Some (givens_dict GivensNone)) sum_heap
     = (Inr True, merge_nodes 0 (private_graph 3 3 sum_heap))
   \<and> is_same_graph_with_merge contrary 3 3 (Some (givens_dict GivensNone)) sum_heap
     = (Inr True, merge_nodes 0 (private_graph 3 3 sum_heap))
   \<and> in_lists contrary (merge_nodes 0 (private_graph 3 3 sum_heap)) 3 3 (givens_dict GivensNone)
     = Inr (Some (None, None))
   \<and> equal_computations contrary (merge_nodes 0 (private_graph 3 3 sum_heap)) [3] [3] None None
     = Inr False
   \<and> is_same_graph contrary 3 3 GivensNone sum_heap
     = (Inl AssertionError, merge_nodes 0 (private_graph 3 3 sum_heap))"
proof -
  let ?H = "merge_nodes 0 (private_graph 3 3 sum_heap)"
  have gd: "givens_dict GivensNone = []" by (simp add: givens_dict_def)
  from is_same_graph_reflexive_dict [OF sum_heap_graph_ok _ gd, of 2]
  have a: "is_same_graph (model 2) 3 3 GivensNone sum_heap = (Inr True, ?H)"
    by (simp add: sum_heap_fields)
  have b: "is_same_graph_with_merge contrary 3 3 (Some (givens_dict GivensNone)) sum_heap
      = (Inr True, ?H)"
    by (simp add: contrary_merge [of 2] merge_reflexive gd sum_heap_fields)
  have c: "in_lists contrary ?H 3 3 (givens_dict GivensNone) = Inr (Some (None, None))"
    by (simp add: in_lists_def gd)
  have d: "equal_computations contrary ?H [3] [3] None None = Inr False"
    by (simp add: contrary_def)
  from is_same_graph_assertion [of "model 2" 3 3 GivensNone sum_heap True ?H] a
  have e: "is_same_graph_with_merge (model 2) 3 3 (Some (givens_dict GivensNone)) sum_heap
      = (Inr True, ?H)" by blast
  from is_same_graph_assertion [of contrary 3 3 GivensNone sum_heap _ _ True ?H None None False]
       b c d
  have f: "is_same_graph contrary 3 3 GivensNone sum_heap = (Inl AssertionError, ?H)"
    by blast
  from a b c d e f show ?thesis by blast
qed

text \<open>
  C2. With the collaborators of the specification and an empty substitution (\<open>None\<close>, an
  empty dict or an empty sequence of pairs), \<open>is_same_graph(v, v)\<close> returns \<open>True\<close> for
  every Variable \<open>v\<close> whose producers form an allocated graph without cycles, once the
  comparator is given a recursion bound that covers the depth of that graph.
\<close>

theorem is_same_graph_reflexive:
  assumes "graph_ok n h v" and "n \<le> fuel"
  shows "fst (is_same_graph (model fuel) v v GivensNone h) = Inr True
       \<and> fst (is_same_graph (model fuel) v v (GivensDict []) h) = Inr True
       \<and> fst (is_same_graph (model fuel) v v (GivensPairs []) h) = Inr True"
  by (simp add: is_same_graph_reflexive_dict [OF assms] givens_dict_def dict_def)

theorem is_same_graph_reflexive_witness:
  "graph_ok 2 sum_heap 3 \<and> (2::nat) \<le> 2
   \<and> fst (is_same_graph (model 2) 3 3 GivensNone sum_heap) = Inr True
   \<and> fst (is_same_graph (model 2) 3 3 (GivensDict []) sum_heap) = Inr True"
  using is_same_graph_reflexive [OF sum_heap_graph_ok, of 2] sum_heap_graph_ok
  by simp

text \<open>
  C3. With the collaborators of the specification, whatever \<open>is_same_graph\<close> returns or
  raises, the heap it leaves has every Variable, node and graph of the caller as before
  the call: the structural snapshot of the caller's objects is the same before and
  after.  Every mutation goes to the copies made by \<open>deepcopy\<close> and to the graph built
  on them.
\<close>

theorem is_same_graph_keeps_caller_graph:
  "snapshot h (snd (is_same_graph (model fuel) var1 var2 givens h)) = snapshot h h"
  by (rule unchanged_snapshot) (rule is_same_graph_unchanged)

theorem is_same_graph_keeps_caller_graph_witness:
  "snapshot sum_heap (snd (is_same_graph (model 2) 3 4 (GivensDict [(0, 1)]) sum_heap))
     = snapshot sum_heap sum_heap"
  using is_same_graph_keeps_caller_graph [of sum_heap 2 3 4 "GivensDict [(0, 1)]"] .

text \<open>
  C4. For all collaborators: when the graph has been copied, substituted and merged and
  the two outputs, remapped through the copied \<open>givens\<close>, are \<open>r1\<close> and \<open>r2\<close>, the
  merge-based checker returns \<open>r1 == r2\<close> (the same Variable) if neither has an owner,
  and otherwise whether the owner of \<open>r1\<close> is the owner of \<open>r2\<close> (the same node).
\<close>

theorem merge_result_compares_identity:
  assumes "merged_graph C var1 var2 givens h = (Inr (fg, givens'), h')"
    and "map (givens_get givens') (fg_outputs (fgraphs h' fg)) = [r1, r2]"
  shows "is_same_graph_with_merge C var1 var2 givens h =
           (Inr (if var_owner h' r1 = None \<and> var_owner h' r2 = None
                 then r1 = r2 else var_owner h' r1 = var_owner h' r2), h')"
  using assms
  by (simp add: is_same_graph_with_merge_def seq_def reading_def compare_outputs_def Let_def)

theorem merge_result_compares_identity_witness:
  "merged_graph (model 0) 0 1 (Some [(0, 1)]) sum_heap
     = (Inr (0, [(5, 6)]), snd (merged_graph (model 0) 0 1 (Some [(0, 1)]) sum_heap))
   \<and> map (givens_get [(5, 6)])
         (fg_outputs (fgraphs (snd (merged_graph (model 0) 0 1 (Some [(0, 1)]) sum_heap)) 0))
     = [6, 6]
   \<and> is_same_graph_with_merge (model 0) 0 1 (Some [(0, 1)]) sum_heap
     = (Inr True, snd (merged_graph (model 0) 0 1 (Some [(0, 1)]) sum_heap))
   \<and> merged_graph (model 0) 3 4 (Some [(0, 1)]) sum_heap
     = (Inr (0, [(5, 6)]), snd (merged_graph (model 0) 3 4 (Some [(0, 1)]) sum_heap))
   \<and> map (givens_get [(5, 6)])
         (fg_outputs (fgraphs (snd (merged_graph (model 0) 3 4 (Some [(0, 1)]) sum_heap)) 0))
     = [8, 8]
   \<and> is_same_graph_with_merge (model 0) 3 4 (Some [(0, 1)]) sum_heap
     = (Inr True, snd (merged_graph (model 0) 3 4 (Some [(0, 1)]) sum_heap))"
proof -
  let ?Hl = "snd (merged_graph (model 0) 0 1 (Some [(0, 1)]) sum_heap)"
  let ?Hn = "snd (merged_graph (model 0) 3 4 (Some [(0, 1)]) sum_heap)"
  note l = leaves_replace [OF sum_heap_leaves(1) sum_heap_fields(1,2) sum_heap_leaves(3)]
  note lm = l(2) [of 0]
  from lm have l1: "merged_graph (model 0) 0 1 (Some [(0, 1)]) sum_heap
      = (Inr (0, [(5, 6)]), ?Hl)"
    by (simp add: sum_heap_fields)
  from lm l(3) have l2: "map (givens_get [(5, 6)]) (fg_outputs (fgraphs ?Hl 0)) = [6, 6]"
    by (simp add: sum_heap_fields givens_get_def)
  from lm l(4,5) have l3: "var_owner ?Hl 6 = None"
    by (simp add: sum_heap_fields)
  from merge_result_compares_identity [OF l1 l2] l3
  have l4: "is_same_graph_with_merge (model 0) 0 1 (Some [(0, 1)]) sum_heap = (Inr True, ?Hl)"
    by simp
  note n = plus_one_merge_given [OF sum_heap_plus_one, of 0]
  from n(2) have n1: "merged_graph (model 0) 3 4 (Some [(0, 1)]) sum_heap
      = (Inr (0, [(5, 6)]), ?Hn)"
    by (simp add: sum_heap_fields)
  from n(3) have n2: "map (givens_get [(5, 6)]) (fg_outputs (fgraphs ?Hn 0)) = [8, 8]"
    by (simp add: sum_heap_fields givens_get_def)
  from n(4) have n3: "var_owner ?Hn 8 = Some 2"
    by (simp add: sum_heap_fields)
  from merge_result_compares_identity [OF n1 n2] n3
  have n4: "is_same_graph_with_merge (model 0) 3 4 (Some [(0, 1)]) sum_heap = (Inr True, ?Hn)"
    by simp
  from l1 l2 l4 n1 n2 n4 show ?thesis by blast
qed



text \<open>
  C6. For all collaborators and a non-empty substitution: if one pair fails the
  separability test, the result is the merge-based one whatever the structural
  comparator would answer (it is not called); if every pair passes, the comparator is
  called with the aligned lists \<open>in_xs\<close>, \<open>in_ys\<close>, the members of each pair on the side
  of \<open>var1\<close> and of \<open>var2\<close>, and \<open>assert\<close> compares its answer with the merge-based one.
\<close>

theorem cross_validation_all_or_nothing:
  assumes "is_same_graph_with_merge C var1 var2 (Some (givens_dict givens)) h = (Inr rval1, h1)"
    and "givens_dict givens \<noteq> []"
    and "graph_inputs C h1 [var1] = Inr inputs1" and "vars_between C h1 inputs1 [var1] = Inr all1"
    and "graph_inputs C h1 [var2] = Inr inputs2" and "vars_between C h1 inputs2 [var2] = Inr all2"
  shows "((\<exists>kv \<in> set (givens_dict givens). \<not> cleanly_separable all1 all2 kv) \<longrightarrow>
            (\<forall>ec. is_same_graph (C\<lparr>equal_computations := ec\<rparr>) var1 var2 givens h
                    = (Inr rval1, h1)))
       \<and> ((\<forall>kv \<in> set (givens_dict givens). cleanly_separable all1 all2 kv) \<longrightarrow>
            is_same_graph C var1 var2 givens h =
              (case equal_computations C h1 [var1] [var2]
                      (Some (map (side1 all1) (givens_dict givens)))
                      (Some (map (side2 all1) (givens_dict givens))) of
                 Inl e \<Rightarrow> (Inl e, h1)
               | Inr rval2 \<Rightarrow>
                   if rval2 = rval1 then (Inr rval1, h1) else (Inl AssertionError, h1)))"
proof (intro conjI impI allI)
  fix ec
  assume ns: "\<exists>kv \<in> set (givens_dict givens). \<not> cleanly_separable all1 all2 kv"
  let ?C = "C\<lparr>equal_computations := ec\<rparr>"
  have "is_same_graph_with_merge ?C = is_same_graph_with_merge C"
    by (rule is_same_graph_with_merge_cong) simp_all
  with assms(1) have m: "is_same_graph_with_merge ?C var1 var2 (Some (givens_dict givens)) h
      = (Inr rval1, h1)" by simp
  from assms(2-6) separate_None [OF ns]
  have "in_lists ?C h1 var1 var2 (givens_dict givens) = Inr None"
    by (simp add: in_lists_def)
  with is_same_graph_unfold [OF m]
  show "is_same_graph ?C var1 var2 givens h = (Inr rval1, h1)" by simp
next
  assume s: "\<forall>kv \<in> set (givens_dict givens). cleanly_separable all1 all2 kv"
  from assms(2-6) separate_Some [OF s, of "[]" "[]"]
  have "in_lists C h1 var1 var2 (givens_dict givens) =
      Inr (Some (Some (map (side1 all1) (givens_dict givens)),
                 Some (map (side2 all1) (givens_dict givens))))"
    by (simp add: in_lists_def)
  with is_same_graph_unfold [OF assms(1)]
  show "is_same_graph C var1 var2 givens h =
              (case equal_computations C h1 [var1] [var2]
                      (Some (map (side1 all1) (givens_dict givens)))
                      (Some (map (side2 all1) (givens_dict givens))) of
                 Inl e \<Rightarrow> (Inl e, h1)
               | Inr rval2 \<Rightarrow>
                   if rval2 = rval1 then (Inr rval1, h1) else (Inl AssertionError, h1))"
    by simp
qed

theorem cross_validation_all_or_nothing_witness:
  "is_same_graph_with_merge (model 1) 0 1 (Some (givens_dict (GivensDict [(0, 0)]))) sum_heap
     = (Inr False, snd (is_same_graph_with_merge (model 1) 0 1 (Some [(0, 0)]) sum_heap))
   \<and> vars_between (model 1)
        (snd (is_same_graph_with_merge (model 1) 0 1 (Some [(0, 0)]) sum_heap)) [0] [0] = Inr [0]
   \<and> vars_between (model 1)
        (snd (is_same_graph_with_merge (model 1) 0 1 (Some [(0, 0)]) sum_heap)) [1] [1] = Inr [1]
   \<and> is_same_graph ((model 1)\<lparr>equal_computations := (\<lambda>h xs ys in_xs in_ys. Inr True)\<rparr>)
        0 1 (GivensDict [(0, 0)]) sum_heap
     = (Inr False, snd (is_same_graph_with_merge (model 1) 0 1 (Some [(0, 0)]) sum_heap))
   \<and> is_same_graph_with_merge (model 1) 0 1 (Some (givens_dict (GivensDict [(0, 1)]))) sum_heap
     = (Inr True, snd (is_same_graph_with_merge (model 1) 0 1 (Some [(0, 1)]) sum_heap))
   \<and> vars_between (model 1)
        (snd (is_same_graph_with_merge (model 1) 0 1 (Some [(0, 1)]) sum_heap)) [0] [0] = Inr [0]
   \<and> vars_between (model 1)
        (snd (is_same_graph_with_merge (model 1) 0 1 (Some [(0, 1)]) sum_heap)) [1] [1] = Inr [1]
   \<and> equal_computations (model 1)
        (snd (is_same_graph_with_merge (model 1) 0 1 (Some [(0, 1)]) sum_heap)) [0] [1]
        (Some [0]) (Some [1]) = Inr True
   \<and> is_same_graph (model 1) 0 1 (GivensDict [(0, 1)]) sum_heap
     = (Inr True, snd (is_same_graph_with_merge (model 1) 0 1 (Some [(0, 1)]) sum_heap))"
proof -
  let ?H0 = "snd (is_same_graph_with_merge (model 1) 0 1 (Some [(0, 0)]) sum_heap)"
  let ?H1 = "snd (is_same_graph_with_merge (model 1) 0 1 (Some [(0, 1)]) sum_heap)"
  note r0 = sum_heap_leaf_run [OF sum_heap_leaves(2)]
  note r1 = sum_heap_leaf_run [OF sum_heap_leaves(3)]
  have ne: "givens_dict (GivensDict [(0, k)]) \<noteq> []" for k
    by (simp add: givens_dict_def)
  have ns: "\<exists>kv \<in> set (givens_dict (GivensDict [(0, 0)])). \<not> cleanly_separable [0] [1] kv"
    by (simp add: givens_dict_def cleanly_separable_def)
  have sp: "\<forall>kv \<in> set (givens_dict (GivensDict [(0, 1)])). cleanly_separable [0] [1] kv"
    by (simp add: givens_dict_def cleanly_separable_def)
  have ec: "equal_computations (model 1) ?H1 [0] [1] (Some [0]) (Some [1]) = Inr True"
    by (simp add: equal_computations_model_def same_structure_assumed)
  from cross_validation_all_or_nothing [OF r0(1) ne r0(2,3,4,5)] ns
  have "is_same_graph ((model 1)\<lparr>equal_computations := (\<lambda>h xs ys in_xs in_ys. Inr True)\<rparr>)
        0 1 (GivensDict [(0, 0)]) sum_heap = (Inr ((0::nat) = 1), ?H0)"
    by blast
  then have a: "is_same_graph ((model 1)\<lparr>equal_computations := (\<lambda>h xs ys in_xs in_ys. Inr True)\<rparr>)
        0 1 (GivensDict [(0, 0)]) sum_heap = (Inr False, ?H0)"
    by simp
  from cross_validation_all_or_nothing [OF r1(1) ne r1(2,3,4,5)] sp
  have "is_same_graph (model 1) 0 1 (GivensDict [(0, 1)]) sum_heap =
          (case equal_computations (model 1) ?H1 [0] [1]
                  (Some (map (side1 [0]) (givens_dict (GivensDict [(0, 1)]))))
                  (Some (map (side2 [0]) (givens_dict (GivensDict [(0, 1)])))) of
             Inl e \<Rightarrow> (Inl e, ?H1)
           | Inr rval2 \<Rightarrow> if rval2 = ((1::nat) = 1) then (Inr ((1::nat) = 1), ?H1)
                          else (Inl AssertionError, ?H1))"
    by blast
  with ec have b: "is_same_graph (model 1) 0 1 (GivensDict [(0, 1)]) sum_heap = (Inr True, ?H1)"
    by (simp add: givens_dict_def side1_def side2_def)
  from r0(1) have m0: "is_same_graph_with_merge (model 1) 0 1
      (Some (givens_dict (GivensDict [(0, 0)]))) sum_heap = (Inr False, ?H0)" by simp
  from r1(1) have m1: "is_same_graph_with_merge (model 1) 0 1
      (Some (givens_dict (GivensDict [(0, 1)]))) sum_heap = (Inr True, ?H1)" by simp
  from m0 r0(3,5) m1 r1(3,5) a b ec show ?thesis by blast
qed

text \<open>
  C10. For all collaborators.  On a \<open>FunctionGraph\<close> the call of \<open>optimize_graph\<close> is
  the run of the pass the registry returns and then of \<open>custom_opt\<close> (when it is
  supplied and true) on the very graph that was passed: the heap the call leaves is the
  heap these passes leave, an exception of a pass is the exception of the call, and a
  returned value is that same graph.  The result does not depend on \<open>clone\<close> nor on the
  constructor \<open>FunctionGraph\<close>, which is not called.  On a \<open>Variable\<close> the constructor
  is called with the flag \<open>clone\<close> on the single output \<open>[v]\<close>, the passes run on
  that graph in the same way, and the value returned is the first output of that graph
  after the passes.
\<close>

theorem optimize_graph_on_FunctionGraph:
  "optimize_graph C (ArgFunctionGraph fg) include custom_opt clone kwargs h =
     (case optdb_query C include kwargs h of
        (Inl e, h1) \<Rightarrow> (Inl e, h1)
      | (Inr canonicalize_opt, h1) \<Rightarrow>
          (case optimize canonicalize_opt fg h1 of
             (Inl e, h2) \<Rightarrow> (Inl e, h2)
           | (Inr u, h2) \<Rightarrow>
               (case (case custom_opt of
                        None \<Rightarrow> (Inr (), h2)
                      | Some opt \<Rightarrow> if truthy opt then optimize opt fg h2 else (Inr (), h2)) of
                  (Inl e, h3) \<Rightarrow> (Inl e, h3)
                | (Inr u, h3) \<Rightarrow> (Inr (ArgFunctionGraph fg), h3))))
 \<and> optimize_graph C (ArgFunctionGraph fg) include custom_opt clone kwargs h =
     optimize_graph (C\<lparr>FunctionGraph := ctor\<rparr>) (ArgFunctionGraph fg) include custom_opt clone'
       kwargs h
 \<and> optimize_graph C (ArgVariable v) include custom_opt clone kwargs h =
     (case FunctionGraph C None [v] clone h of
        (Inl e, h0) \<Rightarrow> (Inl e, h0)
      | (Inr fg', h0) \<Rightarrow>
          (case optimize_graph C (ArgFunctionGraph fg') include custom_opt clone kwargs h0 of
             (Inl e, h') \<Rightarrow> (Inl e, h')
           | (Inr res, h') \<Rightarrow>
               (case fg_outputs (fgraphs h' fg') of
                  [] \<Rightarrow> (Inl IndexError, h')
                | out # rest \<Rightarrow> (Inr (ArgVariable out), h'))))"
  by (auto simp: optimize_graph_def seq_def split: prod.splits sum.splits option.splits
        list.splits if_splits)

theorem optimize_graph_on_FunctionGraph_witness:
  "optimize_graph (model 0) (ArgFunctionGraph 0) [''merge''] None True [] square_heap
     = (Inr (ArgFunctionGraph 0), merge_nodes 0 square_heap)
   \<and> optimize_graph ((model 0)\<lparr>FunctionGraph := (\<lambda>ins outs clone h. (Inl ValueError, h))\<rparr>)
         (ArgFunctionGraph 0) [''merge''] None False [] square_heap
     = (Inr (ArgFunctionGraph 0), merge_nodes 0 square_heap)
   \<and> app_inputs square_heap 2 = [3, 4]
   \<and> app_inputs (merge_nodes 0 square_heap) 2 = [3, 3]
   \<and> fg_apply_nodes (fgraphs square_heap 0) = [0, 1, 2]
   \<and> fg_apply_nodes (fgraphs (merge_nodes 0 square_heap) 0) = [0, 2]
   \<and> fg_clients (fgraphs square_heap 0) 3 = Some [(ClientNode 2, 0)]
   \<and> fg_clients (fgraphs (merge_nodes 0 square_heap) 0) 3
     = Some [(ClientNode 2, 0), (ClientNode 2, 1)]
   \<and> optimize_graph (model 0) (ArgFunctionGraph 0) [''merge''] (Some failing_pass) True []
         square_heap
     = (Inl (OtherError 0), merge_nodes 0 square_heap)
   \<and> optimize_graph (model 0) (ArgVariable 0) [''merge''] None False [] sum_heap
     = (Inr (ArgVariable 0), leaf_graph_heap)
   \<and> optimize_graph (model 0) (ArgVariable 0) [''merge''] None True [] sum_heap
     = (Inr (ArgVariable 5), snd (FunctionGraph_model None [0] True sum_heap))"
proof -
  note t = optimize_graph_on_FunctionGraph
             [of "model 0" 0 "[''merge'']" None True "[]" square_heap
                 "\<lambda>ins outs clone h. (Inl ValueError, h)" False 0]
  from t have a: "optimize_graph (model 0) (ArgFunctionGraph 0) [''merge''] None True []
      square_heap = (Inr (ArgFunctionGraph 0), merge_nodes 0 square_heap)"
    by (simp add: optdb_query_model_merge MergeOptimizer_model_def)
  from a
  have b: "optimize_graph ((model 0)\<lparr>FunctionGraph := (\<lambda>ins outs clone h. (Inl ValueError, h))\<rparr>)
      (ArgFunctionGraph 0) [''merge''] None False [] square_heap
      = (Inr (ArgFunctionGraph 0), merge_nodes 0 square_heap)"
    unfolding t [THEN conjunct2, THEN conjunct1] .
  from a b show ?thesis
    by (simp add: square_runs square_heap_fields square_heap_merged square_heap_clients
          square_heap_merged_clients leaf_graph_runs cloned_leaf_runs)
qed

end
